theory Spec2Isabelle
  imports Complex_Main "HOL-Library.Log_Nat"
begin

section \<open>JavaScript numbers\<close>

text \<open>
  The curve and mesh code computes with JavaScript numbers. Finite numbers are modelled as
  exact reals; \<open>jsnum\<close> adds the one value \<open>None\<close> for a
  number that is not finite (\<open>NaN\<close>, which is also what reading past the end of an array
  and then doing arithmetic gives, and the infinities of a division by zero).  A value
  \<open>None\<close> is only ever propagated or compared the way \<open>NaN\<close> compares (every ordering
  test is false, \<open>!== 0\<close> is true).  The operations of this first part are exact.
  Where the rounding of an operation decides what the code returns, for the end points of
  a Bezier curve, for its degree elevation and for the sampling loop of curve2D.js, the
  code is defined with every operation rounded to a double: the definitions named
  \<open>_double\<close> and those of curve2D.js, after the section on double-precision arithmetic.
\<close>

type_synonym jsnum = "real option"

definition js_add :: "jsnum \<Rightarrow> jsnum \<Rightarrow> jsnum" where
  "js_add a b = (case (a, b) of (Some u, Some v) \<Rightarrow> Some (u + v) | _ \<Rightarrow> None)"

definition js_sub :: "jsnum \<Rightarrow> jsnum \<Rightarrow> jsnum" where
  "js_sub a b = (case (a, b) of (Some u, Some v) \<Rightarrow> Some (u - v) | _ \<Rightarrow> None)"

definition js_mul :: "jsnum \<Rightarrow> jsnum \<Rightarrow> jsnum" where
  "js_mul a b = (case (a, b) of (Some u, Some v) \<Rightarrow> Some (u * v) | _ \<Rightarrow> None)"

definition js_div :: "jsnum \<Rightarrow> jsnum \<Rightarrow> jsnum" where
  "js_div a b =
     (case (a, b) of
        (Some u, Some v) \<Rightarrow> if v = 0 then None else Some (u / v)
      | _ \<Rightarrow> None)"

definition js_abs :: "jsnum \<Rightarrow> jsnum" where
  "js_abs a = map_option abs a"

definition js_lt :: "jsnum \<Rightarrow> jsnum \<Rightarrow> bool" where
  "js_lt a b = (case (a, b) of (Some u, Some v) \<Rightarrow> u < v | _ \<Rightarrow> False)"

definition js_ge :: "jsnum \<Rightarrow> jsnum \<Rightarrow> bool" where
  "js_ge a b = (case (a, b) of (Some u, Some v) \<Rightarrow> u \<ge> v | _ \<Rightarrow> False)"

definition js_max :: "jsnum \<Rightarrow> jsnum \<Rightarrow> jsnum" where
  "js_max a b = (case (a, b) of (Some u, Some v) \<Rightarrow> Some (max u v) | _ \<Rightarrow> None)"

definition js_min :: "jsnum \<Rightarrow> jsnum \<Rightarrow> jsnum" where
  "js_min a b = (case (a, b) of (Some u, Some v) \<Rightarrow> Some (min u v) | _ \<Rightarrow> None)"

text \<open>\<open>arr[i]\<close> for a number array: \<open>undefined\<close> past the end, which arithmetic turns into \<open>NaN\<close>.\<close>

definition knot_at :: "real list \<Rightarrow> nat \<Rightarrow> jsnum" where
  "knot_at arr i = (if i < length arr then Some (arr ! i) else None)"

section \<open>Knot vectors\<close>

text \<open>
  \<open>generateKnotVector\<close> of spline.js (Questao 01): one loop over \<open>i = 0 .. m - 1\<close>, pushing
  one knot per round.  \<open>n\<close> and \<open>degree\<close> are integers.
\<close>

definition generateKnotVector :: "int \<Rightarrow> int \<Rightarrow> real list" where
  "generateKnotVector n degree =
     (let m = n + degree + 1
      in map (\<lambda>i. if i \<le> degree then 0
                  else if i \<ge> n then of_int (n - degree)
                  else of_int (i - degree))
             [0..m - 1])"

text \<open>
  \<open>generateKnotVector\<close> of curve2D.js (Questao 02): three loops, \<open>degree + 1\<close> zeros, the
  inner knots \<open>1 .. numInternal - 1\<close>, and \<open>degree + 1\<close> copies of \<open>numInternal\<close>.
\<close>

definition curve2D_generateKnotVector :: "int \<Rightarrow> int \<Rightarrow> real list" where
  "curve2D_generateKnotVector n degree =
     (let numInternal = n - degree;
          lastValue = numInternal
      in map (\<lambda>i. 0) [0..degree]
         @ map (\<lambda>i. of_int i) [1..numInternal - 1]
         @ map (\<lambda>i. of_int lastValue) [0..degree])"

section \<open>Points\<close>

text \<open>
  A control point is an object \<open>{x, y}\<close>, for the Bezier code with an optional \<open>weight\<close>
  (\<open>None\<close> is \<open>undefined\<close>).  The \<open>id\<close> field the editors add is never read by the curve
  code and is left out.  A \<open>jspoint\<close> is a point whose coordinates were computed and may
  fail to be finite.
\<close>

record point =
  px :: real
  py :: real

record wpoint = point +
  weight :: "real option"

record jspoint =
  jx :: jsnum
  jy :: jsnum

datatype error = TypeError

section \<open>B-splines (spline.js)\<close>

text \<open>
  \<open>bSplineBasis\<close>, the Cox-de Boor recursion.  In the base case the test
  \<open>i === knots.length - degree - 2\<close> is evaluated with \<open>degree = 0\<close>.  The copy in
  curve2D.js is the same function.
\<close>

fun bSplineBasis :: "nat \<Rightarrow> nat \<Rightarrow> jsnum \<Rightarrow> real list \<Rightarrow> jsnum" where
  "bSplineBasis i 0 t knots =
     (if int i = int (length knots) - 0 - 2
         \<and> js_lt (js_abs (js_sub t (knot_at knots (i + 1)))) (Some (1 / 10 ^ 10))
      then Some 1
      else if js_ge t (knot_at knots i) \<and> js_lt t (knot_at knots (i + 1)) then Some 1
      else Some 0)"
| "bSplineBasis i (Suc d) t knots =
     (let degree = Suc d;
          denomLeft = js_sub (knot_at knots (i + degree)) (knot_at knots i);
          left = (if denomLeft \<noteq> Some 0
                  then js_mul (js_div (js_sub t (knot_at knots i)) denomLeft)
                              (bSplineBasis i (degree - 1) t knots)
                  else Some 0);
          denomRight = js_sub (knot_at knots (i + degree + 1)) (knot_at knots (i + 1));
          right = (if denomRight \<noteq> Some 0
                   then js_mul (js_div (js_sub (knot_at knots (i + degree + 1)) t) denomRight)
                               (bSplineBasis (i + 1) (degree - 1) t knots)
                   else Some 0)
      in js_add left right)"

text \<open>The sum of the basis functions \<open>0 .. n - 1\<close>, accumulated as \<open>evaluateBSpline\<close> does.\<close>

definition basisSum :: "nat \<Rightarrow> nat \<Rightarrow> jsnum \<Rightarrow> real list \<Rightarrow> jsnum" where
  "basisSum n degree t knots =
     fold (\<lambda>i acc. js_add acc (bSplineBasis i degree t knots)) [0..<n] (Some 0)"

text \<open>
  \<open>evaluateBSpline\<close>: \<open>null\<close> (\<open>None\<close>) for no control points, else the parameter clamped
  to \<open>[knots[degree], knots[n]]\<close> and the weighted sum of the control points.
\<close>

definition evaluateBSpline :: "jspoint list \<Rightarrow> real \<Rightarrow> nat \<Rightarrow> real list \<Rightarrow> jspoint option" where
  "evaluateBSpline controlPoints t degree knots =
     (if length controlPoints = 0 then None
      else
        let n = length controlPoints;
            tMin = knot_at knots degree;
            tMax = knot_at knots n;
            tClamped = js_max tMin (js_min tMax (Some t))
        in Some (fold (\<lambda>i acc.
                   let basis = bSplineBasis i degree tClamped knots
                   in \<lparr>jx = js_add (jx acc) (js_mul basis (jx (controlPoints ! i))),
                       jy = js_add (jy acc) (js_mul basis (jy (controlPoints ! i)))\<rparr>)
                 [0..<n] \<lparr>jx = Some 0, jy = Some 0\<rparr>))"

text \<open>
  \<open>insertKnot\<close>.  The \<open>while\<close> loop looks for the first \<open>k \<ge> degree\<close> with
  \<open>knots[k] \<ge> newKnot\<close>; the \<open>for\<close> loop runs over \<open>i = 0 .. n - 1\<close> and pushes one point per
  round.  Reading \<open>controlPoints[i - 1].x\<close> at \<open>i = 0\<close> throws a \<open>TypeError\<close>.
\<close>

function findSpan :: "real list \<Rightarrow> real \<Rightarrow> nat \<Rightarrow> nat" where
  "findSpan knots newKnot k =
     (if int k < int (length knots) - 1 \<and> knots ! k < newKnot
      then findSpan knots newKnot (Suc k) else k)"
  by pat_completeness auto
termination
  by (relation "measure (\<lambda>(knots, newKnot, k). length knots - k)") auto

definition insertKnot_point :: "jspoint list \<Rightarrow> real list \<Rightarrow> nat \<Rightarrow> real \<Rightarrow> nat \<Rightarrow> nat
    \<Rightarrow> error + jspoint" where
  "insertKnot_point controlPoints knots degree newKnot k i =
     (if int i \<le> int k - int degree - 1 then Inr (controlPoints ! i)
      else if int i > int k - 1 then Inr (controlPoints ! i)
      else
        let alpha = js_div (js_sub (Some newKnot) (knot_at knots i))
                           (js_sub (knot_at knots (i + degree)) (knot_at knots i))
        in if i = 0 then Inl TypeError
           else Inr \<lparr>jx = js_add (js_mul (js_sub (Some 1) alpha) (jx (controlPoints ! (i - 1))))
                                  (js_mul alpha (jx (controlPoints ! i))),
                     jy = js_add (js_mul (js_sub (Some 1) alpha) (jy (controlPoints ! (i - 1))))
                                  (js_mul alpha (jy (controlPoints ! i)))\<rparr>)"

fun collect :: "(error + 'a) list \<Rightarrow> error + 'a list" where
  "collect [] = Inr []"
| "collect (Inl e # rs) = Inl e"
| "collect (Inr v # rs) = (case collect rs of Inl e \<Rightarrow> Inl e | Inr vs \<Rightarrow> Inr (v # vs))"

definition insertKnot :: "jspoint list \<Rightarrow> real list \<Rightarrow> nat \<Rightarrow> real
    \<Rightarrow> error + (jspoint list \<times> real list)" where
  "insertKnot controlPoints knots degree newKnot =
     (let n = length controlPoints;
          k = findSpan knots newKnot degree
      in case collect (map (insertKnot_point controlPoints knots degree newKnot k) [0..<n]) of
           Inl e \<Rightarrow> Inl e
         | Inr newControlPoints \<Rightarrow>
             Inr (newControlPoints, take k knots @ [newKnot] @ drop k knots))"

section \<open>Bezier curves (bezier.js)\<close>

text \<open>
  The rational evaluator \<open>deCasteljau\<close> lifts every control point to homogeneous
  coordinates \<open>(w * x, w * y, w)\<close> with \<open>w = p.weight || 1\<close> (an undefined or zero weight
  counts as 1), reduces the list by linear interpolation of neighbours until one point is
  left, and divides by the last weight.  The operations of this section are exact; the
  section on Bezier curves in double arithmetic repeats the evaluators and the degree
  elevation with every operation rounded.
\<close>

record hpoint =
  hwx :: real
  hwy :: real
  hw :: real

definition homogeneous :: "wpoint \<Rightarrow> hpoint" where
  "homogeneous p =
     (let w = (case weight p of None \<Rightarrow> 1 | Some v \<Rightarrow> if v = 0 then 1 else v)
      in \<lparr>hwx = px p * w, hwy = py p * w, hw = w\<rparr>)"

text \<open>The inner \<open>for\<close> loop: one new point per pair of neighbours.\<close>

fun deCasteljau_round :: "real \<Rightarrow> hpoint list \<Rightarrow> hpoint list" where
  "deCasteljau_round t (p0 # p1 # ps) =
     \<lparr>hwx = (1 - t) * hwx p0 + t * hwx p1,
      hwy = (1 - t) * hwy p0 + t * hwy p1,
      hw = (1 - t) * hw p0 + t * hw p1\<rparr> # deCasteljau_round t (p1 # ps)"
| "deCasteljau_round t ps = []"

text \<open>The outer \<open>while (currentPoints.length > 1)\<close> loop.\<close>

function deCasteljau_loop :: "real \<Rightarrow> hpoint list \<Rightarrow> hpoint list" where
  "deCasteljau_loop t currentPoints =
     (if length currentPoints > 1 then deCasteljau_loop t (deCasteljau_round t currentPoints)
      else currentPoints)"
  by pat_completeness auto
termination
proof (relation "measure (\<lambda>(t, ps). length ps)")
  show "wf (measure (\<lambda>(t, ps). length ps))"
    by simp
next
  fix t :: real and currentPoints :: "hpoint list"
  assume more: "1 < length currentPoints"
  have "length (deCasteljau_round t currentPoints) = length currentPoints - 1"
    by (induction t currentPoints rule: deCasteljau_round.induct) simp_all
  with more show "((t, deCasteljau_round t currentPoints), (t, currentPoints))
      \<in> measure (\<lambda>(t, ps). length ps)"
    by simp
qed

definition deCasteljau :: "wpoint list \<Rightarrow> real \<Rightarrow> jspoint option" where
  "deCasteljau points t =
     (if length points = 0 then None
      else if length points = 1
      then Some \<lparr>jx = Some (px (points ! 0)), jy = Some (py (points ! 0))\<rparr>
      else
        let currentPoints = deCasteljau_loop t (map homogeneous points);
            final = currentPoints ! 0
        in Some \<lparr>jx = js_div (Some (hwx final)) (Some (hw final)),
                  jy = js_div (Some (hwy final)) (Some (hw final))\<rparr>)"

text \<open>
  The non-rational evaluator \<open>deCasteljauSimple\<close> reads only \<open>x\<close> and \<open>y\<close> of its points
  and runs the same two loops on them.
\<close>

definition xy :: "'a point_scheme \<Rightarrow> point" where
  "xy p = \<lparr>px = px p, py = py p\<rparr>"

fun deCasteljauSimple_round :: "real \<Rightarrow> point list \<Rightarrow> point list" where
  "deCasteljauSimple_round t (p0 # p1 # ps) =
     \<lparr>px = (1 - t) * px p0 + t * px p1,
      py = (1 - t) * py p0 + t * py p1\<rparr> # deCasteljauSimple_round t (p1 # ps)"
| "deCasteljauSimple_round t ps = []"

function deCasteljauSimple_loop :: "real \<Rightarrow> point list \<Rightarrow> point list" where
  "deCasteljauSimple_loop t currentPoints =
     (if length currentPoints > 1
      then deCasteljauSimple_loop t (deCasteljauSimple_round t currentPoints)
      else currentPoints)"
  by pat_completeness auto
termination
proof (relation "measure (\<lambda>(t, ps). length ps)")
  show "wf (measure (\<lambda>(t, ps). length ps))"
    by simp
next
  fix t :: real and currentPoints :: "point list"
  assume more: "1 < length currentPoints"
  have "length (deCasteljauSimple_round t currentPoints) = length currentPoints - 1"
    by (induction t currentPoints rule: deCasteljauSimple_round.induct) simp_all
  with more show "((t, deCasteljauSimple_round t currentPoints), (t, currentPoints))
      \<in> measure (\<lambda>(t, ps). length ps)"
    by simp
qed

definition deCasteljauSimple :: "'a point_scheme list \<Rightarrow> real \<Rightarrow> point option" where
  "deCasteljauSimple points t =
     (if length points = 0 then None
      else if length points = 1 then Some \<lparr>px = px (points ! 0), py = py (points ! 0)\<rparr>
      else
        let currentPoints = deCasteljauSimple_loop t (map xy points)
        in Some \<lparr>px = px (currentPoints ! 0), py = py (currentPoints ! 0)\<rparr>)"

text \<open>
  \<open>generateBezierCurve\<close> picks one of the two evaluators and samples it at
  \<open>t = i / steps\<close> for \<open>i = 0 .. steps\<close>; \<open>steps\<close> is a natural number.  With
  \<open>steps = 0\<close> the only parameter is \<open>0 / 0 = NaN\<close>, and the one sample has \<open>NaN\<close>
  coordinates.
\<close>

datatype algorithm = Rational | Simple

definition finite_point :: "point \<Rightarrow> jspoint" where
  "finite_point p = \<lparr>jx = Some (px p), jy = Some (py p)\<rparr>"

fun run :: "algorithm \<Rightarrow> wpoint list \<Rightarrow> real \<Rightarrow> jspoint option" where
  "run Rational points t = deCasteljau points t"
| "run Simple points t = map_option finite_point (deCasteljauSimple points t)"

definition hasWeights :: "wpoint list \<Rightarrow> bool" where
  "hasWeights controlPoints =
     list_ex (\<lambda>p. weight p \<noteq> None \<and> weight p \<noteq> Some 1) controlPoints"

definition chooseAlgorithm :: "wpoint list \<Rightarrow> bool \<Rightarrow> algorithm" where
  "chooseAlgorithm controlPoints useWeights =
     (if hasWeights controlPoints \<and> useWeights then Rational else Simple)"

definition generateBezierCurve :: "wpoint list \<Rightarrow> nat \<Rightarrow> bool \<Rightarrow> jspoint list" where
  "generateBezierCurve controlPoints steps useWeights =
     (if length controlPoints < 2 then []
      else
        let algorithm = chooseAlgorithm controlPoints useWeights
        in if steps = 0 then [\<lparr>jx = None, jy = None\<rparr>]
           else concat (map (\<lambda>i. case run algorithm controlPoints (real i / real steps) of
                                    None \<Rightarrow> []
                                  | Some point \<Rightarrow> [point])
                            [0..<steps + 1]))"

text \<open>
  \<open>elevateBezierDegree\<close>: the first and the last point are copied, the points between are
  blends of neighbours and keep the weight of the right neighbour.
\<close>

definition elevateBezierDegree :: "wpoint list \<Rightarrow> wpoint list" where
  "elevateBezierDegree points =
     (if length points < 2 then points
      else
        let n = length points - 1
        in [points ! 0]
           @ map (\<lambda>i. let alpha = real i / real (n + 1)
                       in \<lparr>px = alpha * px (points ! (i - 1)) + (1 - alpha) * px (points ! i),
                           py = alpha * py (points ! (i - 1)) + (1 - alpha) * py (points ! i),
                           weight = weight (points ! i)\<rparr>)
                 [1..<n + 1]
           @ [points ! n])"

section \<open>Double-precision arithmetic\<close>

text \<open>
  A JavaScript number is an IEEE 754 double: a sign, a significand of 53 bits and an
  exponent between \<open>-1022\<close> and \<open>1023\<close>.  \<open>exponent x\<close> is the integer \<open>e\<close> with
  \<open>2 ^ e \<le> \<bar>x\<bar> < 2 ^ (e + 1)\<close>, and \<open>double x\<close> is the double nearest to the real
  number \<open>x\<close>: the multiple of \<open>2 ^ (e - 52)\<close> nearest to \<open>x\<close>, a tie going to the even
  multiple, and for \<open>e\<close> below \<open>-1022\<close> the multiple of \<open>2 ^ (-1074)\<close> (gradual
  underflow).  An infinity is not a real number: \<open>in_range x\<close> says that the rounding of
  \<open>x\<close> stays below \<open>2 ^ 1024\<close>, where JavaScript still returns a finite number, and
  \<open>is_double x\<close> that \<open>x\<close> is a finite double.  The sign of a zero is not modelled.
\<close>

definition roundEven :: "real \<Rightarrow> int" where
  "roundEven y =
     (let f = \<lfloor>y\<rfloor>; d = y - of_int f
      in if d < 1 / 2 then f else if d > 1 / 2 then f + 1 else if even f then f else f + 1)"

definition exponent :: "real \<Rightarrow> int" where
  "exponent x =
     (let a = \<bar>x\<bar>
      in if a \<ge> 1 then bitlen \<lfloor>a\<rfloor> - 1 else - bitlen (\<lceil>1 / a\<rceil> - 1))"

definition double :: "real \<Rightarrow> real" where
  "double x =
     (if x = 0 then 0
      else let u = 2 powi (max (exponent x) (- 1022) - 52) in of_int (roundEven (x / u)) * u)"

definition in_range :: "real \<Rightarrow> bool" where
  "in_range x \<longleftrightarrow> (let r = double x in r = 0 \<or> exponent r \<le> 1023)"


text \<open>
  The operators of the code on doubles: each returns its exact result rounded.  The
  quotient is what an evaluator returns in the end; it is \<open>None\<close> (\<open>NaN\<close> or an infinity)
  when the divisor is 0 or the result is out of range.  Sums, differences and products are
  real numbers; the statements about them say where they are in range.
\<close>

definition fl_add :: "real \<Rightarrow> real \<Rightarrow> real" where
  "fl_add a b = double (a + b)"

definition fl_sub :: "real \<Rightarrow> real \<Rightarrow> real" where
  "fl_sub a b = double (a - b)"

definition fl_mul :: "real \<Rightarrow> real \<Rightarrow> real" where
  "fl_mul a b = double (a * b)"

definition fl_div :: "real \<Rightarrow> real \<Rightarrow> jsnum" where
  "fl_div a b =
     (if b = 0 then None else if in_range (a / b) then Some (double (a / b)) else None)"

section \<open>Bezier curves in double arithmetic (bezier.js)\<close>

text \<open>
  \<open>deCasteljau\<close>, \<open>deCasteljauSimple\<close> and \<open>elevateBezierDegree\<close> once more, statement
  by statement as above, with every operation of the source rounded in the order the
  source performs it: \<open>(1 - t) * a + t * b\<close> is a difference, two products and a sum.
  \<open>weightOrOne\<close> is \<open>p.weight || 1\<close>.
\<close>

definition weightOrOne :: "wpoint \<Rightarrow> real" where
  "weightOrOne p = (case weight p of None \<Rightarrow> 1 | Some v \<Rightarrow> if v = 0 then 1 else v)"

definition homogeneous_double :: "wpoint \<Rightarrow> hpoint" where
  "homogeneous_double p =
     (let w = weightOrOne p
      in \<lparr>hwx = fl_mul (px p) w, hwy = fl_mul (py p) w, hw = w\<rparr>)"

fun deCasteljau_round_double :: "real \<Rightarrow> hpoint list \<Rightarrow> hpoint list" where
  "deCasteljau_round_double t (p0 # p1 # ps) =
     \<lparr>hwx = fl_add (fl_mul (fl_sub 1 t) (hwx p0)) (fl_mul t (hwx p1)),
      hwy = fl_add (fl_mul (fl_sub 1 t) (hwy p0)) (fl_mul t (hwy p1)),
      hw = fl_add (fl_mul (fl_sub 1 t) (hw p0)) (fl_mul t (hw p1))\<rparr>
     # deCasteljau_round_double t (p1 # ps)"
| "deCasteljau_round_double t ps = []"

function deCasteljau_loop_double :: "real \<Rightarrow> hpoint list \<Rightarrow> hpoint list" where
  "deCasteljau_loop_double t currentPoints =
     (if length currentPoints > 1
      then deCasteljau_loop_double t (deCasteljau_round_double t currentPoints)
      else currentPoints)"
  by pat_completeness auto
termination
proof (relation "measure (\<lambda>(t, ps). length ps)")
  show "wf (measure (\<lambda>(t, ps). length ps))"
    by simp
next
  fix t :: real and currentPoints :: "hpoint list"
  assume more: "1 < length currentPoints"
  have "length (deCasteljau_round_double t currentPoints) = length currentPoints - 1"
    by (induction t currentPoints rule: deCasteljau_round_double.induct) simp_all
  with more show "((t, deCasteljau_round_double t currentPoints), (t, currentPoints))
      \<in> measure (\<lambda>(t, ps). length ps)"
    by simp
qed

definition deCasteljau_double :: "wpoint list \<Rightarrow> real \<Rightarrow> jspoint option" where
  "deCasteljau_double points t =
     (if length points = 0 then None
      else if length points = 1
      then Some \<lparr>jx = Some (px (points ! 0)), jy = Some (py (points ! 0))\<rparr>
      else
        let currentPoints = deCasteljau_loop_double t (map homogeneous_double points);
            final = currentPoints ! 0
        in Some \<lparr>jx = fl_div (hwx final) (hw final),
                  jy = fl_div (hwy final) (hw final)\<rparr>)"

fun deCasteljauSimple_round_double :: "real \<Rightarrow> point list \<Rightarrow> point list" where
  "deCasteljauSimple_round_double t (p0 # p1 # ps) =
     \<lparr>px = fl_add (fl_mul (fl_sub 1 t) (px p0)) (fl_mul t (px p1)),
      py = fl_add (fl_mul (fl_sub 1 t) (py p0)) (fl_mul t (py p1))\<rparr>
     # deCasteljauSimple_round_double t (p1 # ps)"
| "deCasteljauSimple_round_double t ps = []"

function deCasteljauSimple_loop_double :: "real \<Rightarrow> point list \<Rightarrow> point list" where
  "deCasteljauSimple_loop_double t currentPoints =
     (if length currentPoints > 1
      then deCasteljauSimple_loop_double t (deCasteljauSimple_round_double t currentPoints)
      else currentPoints)"
  by pat_completeness auto
termination
proof (relation "measure (\<lambda>(t, ps). length ps)")
  show "wf (measure (\<lambda>(t, ps). length ps))"
    by simp
next
  fix t :: real and currentPoints :: "point list"
  assume more: "1 < length currentPoints"
  have "length (deCasteljauSimple_round_double t currentPoints) = length currentPoints - 1"
    by (induction t currentPoints rule: deCasteljauSimple_round_double.induct) simp_all
  with more show "((t, deCasteljauSimple_round_double t currentPoints), (t, currentPoints))
      \<in> measure (\<lambda>(t, ps). length ps)"
    by simp
qed


definition elevateBezierDegree_double :: "wpoint list \<Rightarrow> wpoint list" where
  "elevateBezierDegree_double points =
     (if length points < 2 then points
      else
        let n = length points - 1
        in [points ! 0]
           @ map (\<lambda>i. let alpha = double (real i / real (n + 1))
                       in \<lparr>px = fl_add (fl_mul alpha (px (points ! (i - 1))))
                                        (fl_mul (fl_sub 1 alpha) (px (points ! i))),
                           py = fl_add (fl_mul alpha (py (points ! (i - 1))))
                                        (fl_mul (fl_sub 1 alpha) (py (points ! i))),
                           weight = weight (points ! i)\<rparr>)
                 [1..<n + 1]
           @ [points ! n])"

section \<open>Bezier curves of Questao 02 (curve2D.js)\<close>

text \<open>
  \<open>deCasteljau\<close> of curve2D.js copies \<open>x\<close> and \<open>y\<close> of every point and runs the loops of
  \<open>deCasteljauSimple\<close>; for one control point it returns a copy of that point.  Its
  operations are rounded to doubles.
\<close>

definition curve2D_deCasteljau :: "point list \<Rightarrow> real \<Rightarrow> point option" where
  "curve2D_deCasteljau controlPoints t =
     (if length controlPoints = 0 then None
      else if length controlPoints = 1 then Some (controlPoints ! 0)
      else
        let points = deCasteljauSimple_loop_double t
                       (map (\<lambda>p. \<lparr>px = px p, py = py p\<rparr>) controlPoints)
        in Some (points ! 0))"

text \<open>
  \<open>generateBezierCurve\<close> of curve2D.js advances \<open>t\<close> by adding \<open>step = 1 / resolution\<close>
  while \<open>t \<le> 1\<close>, and pushes the point at \<open>t = 1\<close> once more after the loop.  The step
  and every sum are rounded, so the values of \<open>t\<close> are not the quotients
  \<open>i / resolution\<close>, and the one after \<open>resolution\<close> additions may fall on either side of
  1.  The loop carries no bound of its own, so its model may fail to return (\<open>None\<close>).
  With \<open>resolution = 0\<close> the step is infinite: the loop body runs once.
\<close>

partial_function (option) curve2D_sampleLoop ::
    "point list \<Rightarrow> real \<Rightarrow> real \<Rightarrow> point list \<Rightarrow> point list option" where
  "curve2D_sampleLoop controlPoints step t curvePoints =
     (if t \<le> 1
      then curve2D_sampleLoop controlPoints step (fl_add t step)
             (case curve2D_deCasteljau controlPoints t of
                None \<Rightarrow> curvePoints
              | Some point \<Rightarrow> curvePoints @ [point])
      else Some curvePoints)"

definition curve2D_generateBezierCurve :: "point list \<Rightarrow> nat \<Rightarrow> point list option" where
  "curve2D_generateBezierCurve controlPoints resolution =
     (if length controlPoints < 2 then Some []
      else
        case (if resolution = 0
              then Some (case curve2D_deCasteljau controlPoints 0 of
                           None \<Rightarrow> [] | Some point \<Rightarrow> [point])
              else curve2D_sampleLoop controlPoints (double (1 / real resolution)) 0 [])
        of None \<Rightarrow> None
         | Some curvePoints \<Rightarrow>
             Some (case curve2D_deCasteljau controlPoints 1 of
                     None \<Rightarrow> curvePoints
                   | Some finalPoint \<Rightarrow> curvePoints @ [finalPoint]))"

section \<open>Picking a point (controlPoints.js, curve2D.js)\<close>

text \<open>
  \<open>ControlPointsManager.findPointNear\<close> walks the indices from \<open>length - 1\<close> down to
  \<open>0\<close>; the last argument of the loop is the number of indices still to visit, so the
  index under test is one less.  The result is the index, or \<open>-1\<close>.
\<close>

fun findPointNear_loop :: "wpoint list \<Rightarrow> real \<Rightarrow> real \<Rightarrow> real \<Rightarrow> nat \<Rightarrow> int" where
  "findPointNear_loop points x y threshold 0 = - 1"
| "findPointNear_loop points x y threshold (Suc i) =
     (let dx = px (points ! i) - x;
          dy = py (points ! i) - y;
          distance = sqrt (dx * dx + dy * dy)
      in if distance \<le> threshold then int i
         else findPointNear_loop points x y threshold i)"

definition findPointNear :: "wpoint list \<Rightarrow> real \<Rightarrow> real \<Rightarrow> real \<Rightarrow> int" where
  "findPointNear points x y threshold =
     findPointNear_loop points x y threshold (length points)"

text \<open>
  \<open>ProfilePoints.findPointAt\<close> walks the indices upwards from \<open>0\<close>; the loop takes the
  points not yet visited and the index of the first of them.
\<close>

fun findPointAt_loop :: "point list \<Rightarrow> real \<Rightarrow> real \<Rightarrow> real \<Rightarrow> nat \<Rightarrow> int" where
  "findPointAt_loop [] x y threshold i = - 1"
| "findPointAt_loop (p # ps) x y threshold i =
     (let dist = sqrt ((px p - x) ^ 2 + (py p - y) ^ 2)
      in if dist \<le> threshold then int i
         else findPointAt_loop ps x y threshold (Suc i))"

definition findPointAt :: "point list \<Rightarrow> real \<Rightarrow> real \<Rightarrow> real \<Rightarrow> int" where
  "findPointAt points x y threshold = findPointAt_loop points x y threshold 0"

text \<open>Within Euclidean distance \<open>threshold\<close> of \<open>(x, y)\<close>.\<close>

definition near :: "'a point_scheme \<Rightarrow> real \<Rightarrow> real \<Rightarrow> real \<Rightarrow> bool" where
  "near p x y threshold = (sqrt ((px p - x)\<^sup>2 + (py p - y)\<^sup>2) \<le> threshold)"

section \<open>Revolution surfaces (revolution.js)\<close>

record vec3 =
  vx :: real
  vy :: real
  vz :: real

record parameters =
  p_axis :: string
  p_angle :: real
  p_subdivisions :: nat
  p_profilePointsCount :: nat

text \<open>
  The fields of a \<open>RevolutionSurface\<close>.  A face is an array of three vertex indices;
  \<open>parameters = None\<close> is the empty object \<open>{}\<close>.
\<close>

record surface =
  vertices :: "vec3 list"
  faces :: "(nat \<times> nat \<times> nat) list"
  normals :: "vec3 list"
  parameters :: "parameters option"

text \<open>The state a constructor call leaves, which is also the state after \<open>clear\<close>.\<close>

definition emptySurface :: surface where
  "emptySurface = \<lparr>vertices = [], faces = [], normals = [], parameters = None\<rparr>"

definition clear :: "surface \<Rightarrow> surface" where
  "clear s = s\<lparr>vertices := [], faces := [], normals := [], parameters := None\<rparr>"

text \<open>\<open>toLowerCase\<close> on the ASCII letters, which is all the axis names need.\<close>

definition toLowerCase :: "string \<Rightarrow> string" where
  "toLowerCase s =
     map (\<lambda>c. let k = (of_char c :: nat)
               in if 65 \<le> k \<and> k \<le> 90 then char_of (k + 32) else c) s"

definition rotatePoint :: "point \<Rightarrow> real \<Rightarrow> string \<Rightarrow> vec3" where
  "rotatePoint point theta axis =
     (let c = cos theta; s = sin theta; a = toLowerCase axis
      in if a = ''y'' then \<lparr>vx = px point * c, vy = py point, vz = px point * s\<rparr>
         else if a = ''x'' then \<lparr>vx = px point, vy = py point * c, vz = py point * s\<rparr>
         else if a = ''z''
         then \<lparr>vx = px point * c - py point * s, vy = px point * s + py point * c, vz = 0\<rparr>
         else \<lparr>vx = px point, vy = py point, vz = 0\<rparr>)"

text \<open>
  \<open>calculateNormals\<close>.  Every face adds its cross product to the accumulators of its three
  vertices, one after the other; a face index past the end of \<open>vertices\<close> makes the
  property read on \<open>undefined\<close> throw a \<open>TypeError\<close>.  Afterwards every accumulator of
  positive length is divided by its length.
\<close>

definition faceCross :: "vec3 \<Rightarrow> vec3 \<Rightarrow> vec3 \<Rightarrow> vec3" where
  "faceCross v0 v1 v2 =
     (let e1x = vx v1 - vx v0; e1y = vy v1 - vy v0; e1z = vz v1 - vz v0;
          e2x = vx v2 - vx v0; e2y = vy v2 - vy v0; e2z = vz v2 - vz v0
      in \<lparr>vx = e1y * e2z - e1z * e2y,
          vy = e1z * e2x - e1x * e2z,
          vz = e1x * e2y - e1y * e2x\<rparr>)"

definition addNormal :: "vec3 \<Rightarrow> vec3 list \<Rightarrow> nat \<Rightarrow> vec3 list" where
  "addNormal normal ns idx =
     ns[idx := \<lparr>vx = vx (ns ! idx) + vx normal,
                vy = vy (ns ! idx) + vy normal,
                vz = vz (ns ! idx) + vz normal\<rparr>]"

fun accumulateFaces :: "vec3 list \<Rightarrow> (nat \<times> nat \<times> nat) list \<Rightarrow> vec3 list \<Rightarrow> error + vec3 list" where
  "accumulateFaces vs [] ns = Inr ns"
| "accumulateFaces vs ((i0, i1, i2) # fs) ns =
     (if i0 < length vs \<and> i1 < length vs \<and> i2 < length vs
      then
        let normal = faceCross (vs ! i0) (vs ! i1) (vs ! i2)
        in accumulateFaces vs fs (addNormal normal (addNormal normal (addNormal normal ns i0) i1) i2)
      else Inl TypeError)"

definition vecLength :: "vec3 \<Rightarrow> real" where
  "vecLength n = sqrt (vx n * vx n + vy n * vy n + vz n * vz n)"

definition normalizeVec :: "vec3 \<Rightarrow> vec3" where
  "normalizeVec n =
     (let len = vecLength n
      in if len > 0 then \<lparr>vx = vx n / len, vy = vy n / len, vz = vz n / len\<rparr> else n)"

definition zeroVec :: vec3 where
  "zeroVec = \<lparr>vx = 0, vy = 0, vz = 0\<rparr>"

definition accumulatedNormals :: "surface \<Rightarrow> error + vec3 list" where
  "accumulatedNormals s =
     accumulateFaces (vertices s) (faces s) (map (\<lambda>v. zeroVec) (vertices s))"

definition calculateNormals :: "surface \<Rightarrow> error + surface" where
  "calculateNormals s =
     (case accumulatedNormals s of
        Inl e \<Rightarrow> Inl e
      | Inr ns \<Rightarrow> Inr (s\<lparr>normals := map normalizeVec ns\<rparr>))"

text \<open>
  \<open>generate\<close> returns nothing; the model returns what it wrote with \<open>console.warn\<close> and
  the surface it leaves.  \<open>subdivisions\<close> is a natural number and at least 1 here: with
  \<open>subdivisions = 0\<close> the angle step is a division by zero and every rotated coordinate
  is \<open>NaN\<close>, which a real-valued mesh cannot hold, so the model puts no mesh in that case
  and says so with \<open>None\<close>.
\<close>

definition ringVertices :: "point list \<Rightarrow> string \<Rightarrow> real \<Rightarrow> nat \<Rightarrow> vec3 list" where
  "ringVertices profilePoints axis angleStep subdivisions =
     concat (map (\<lambda>i. let theta = real i * angleStep
                       in map (\<lambda>point. rotatePoint point theta axis) profilePoints)
                 [0..<subdivisions + 1])"

definition ringFaces :: "nat \<Rightarrow> nat \<Rightarrow> (nat \<times> nat \<times> nat) list" where
  "ringFaces pointsPerRing subdivisions =
     concat (map (\<lambda>i. concat (map (\<lambda>j. let current = i * pointsPerRing + j;
                                            next = current + pointsPerRing
                                        in [(current, next, current + 1),
                                            (current + 1, next, next + 1)])
                                  [0..<pointsPerRing - 1]))
                 [0..<subdivisions])"

definition generate :: "surface \<Rightarrow> point list \<Rightarrow> string \<Rightarrow> real \<Rightarrow> nat
    \<Rightarrow> (error + string list \<times> surface) option" where
  "generate s profilePoints axis angle subdivisions =
     (if length profilePoints < 2
      then Some (Inr ([''Perfil precisa de pelo menos 2 pontos''], s))
      else if subdivisions = 0 then None
      else
        let s1 = (clear s)\<lparr>parameters :=
                   Some \<lparr>p_axis = axis, p_angle = angle, p_subdivisions = subdivisions,
                         p_profilePointsCount = length profilePoints\<rparr>\<rparr>;
            angleRad = (angle * pi) / 180;
            angleStep = angleRad / real subdivisions;
            s2 = s1\<lparr>vertices := ringVertices profilePoints axis angleStep subdivisions\<rparr>;
            pointsPerRing = length profilePoints;
            s3 = s2\<lparr>faces := ringFaces pointsPerRing subdivisions\<rparr>
        in Some (case calculateNormals s3 of
                   Inl e \<Rightarrow> Inl e
                 | Inr s4 \<Rightarrow> Inr ([], s4)))"

section \<open>The value of a Bezier curve\<close>

text \<open>
  The proofs below compare the loops with the recursive form of de Casteljau's scheme on
  the coordinate sequence \<open>f 0, \<dots>, f n\<close>, and \<open>elev n f\<close> is the coordinate sequence
  degree elevation computes from it.
\<close>

fun bez :: "real \<Rightarrow> nat \<Rightarrow> (nat \<Rightarrow> real) \<Rightarrow> real" where
  "bez t 0 f = f 0"
| "bez t (Suc n) f = (1 - t) * bez t n f + t * bez t n (\<lambda>i. f (Suc i))"

definition elev :: "nat \<Rightarrow> (nat \<Rightarrow> real) \<Rightarrow> nat \<Rightarrow> real" where
  "elev n f i = (real i / real (n + 1)) * f (i - 1) + (1 - real i / real (n + 1)) * f i"

section \<open>The Cox-de Boor recursion on real numbers\<close>

text \<open>
  The recursion as the specification words it, on real numbers and without the special
  case of the last interval: 1 on the half-open span \<open>[knots[i], knots[i+1])\<close> for degree
  0, and a term left out when its denominator is 0.  The proofs compare \<open>bSplineBasis\<close>
  with it.
\<close>

fun coxDeBoor :: "real list \<Rightarrow> nat \<Rightarrow> nat \<Rightarrow> real \<Rightarrow> real" where
  "coxDeBoor knots i 0 t = (if knots ! i \<le> t \<and> t < knots ! (i + 1) then 1 else 0)"
| "coxDeBoor knots i (Suc j) t =
     (if knots ! (i + Suc j) - knots ! i \<noteq> 0
      then (t - knots ! i) / (knots ! (i + Suc j) - knots ! i) * coxDeBoor knots i j t
      else 0)
     + (if knots ! (i + Suc j + 1) - knots ! (i + 1) \<noteq> 0
        then (knots ! (i + Suc j + 1) - t) / (knots ! (i + Suc j + 1) - knots ! (i + 1))
             * coxDeBoor knots (i + 1) j t
        else 0)"

section \<open>Control points that are doubles\<close>






text \<open>
  The values \<open>t\<close> takes in the loop of \<open>generateBezierCurve\<close> of curve2D.js, as far as
  \<open>fuel\<close> additions reach: \<open>None\<close> when the loop has not ended by then.
\<close>

fun sampleParameters :: "nat \<Rightarrow> real \<Rightarrow> real \<Rightarrow> real list option" where
  "sampleParameters 0 step t = (if t \<le> 1 then None else Some [])"
| "sampleParameters (Suc fuel) step t =
     (if t \<le> 1 then map_option ((#) t) (sampleParameters fuel step (fl_add t step))
      else Some [])"

section \<open>Lengths of the knot vectors and of a reduction round\<close>

declare deCasteljau_loop.simps [simp del]
declare deCasteljauSimple_loop.simps [simp del]
declare deCasteljau_loop_double.simps [simp del]
declare deCasteljauSimple_loop_double.simps [simp del]
declare findSpan.simps [simp del]

lemma generateKnotVector_length:
  "0 \<le> n + degree + 1 \<Longrightarrow> length (generateKnotVector n degree) = nat (n + degree + 1)"
  by (simp add: generateKnotVector_def Let_def)

lemma curve2D_generateKnotVector_length:
  assumes "1 \<le> degree" "degree + 1 \<le> n"
  shows "length (curve2D_generateKnotVector n degree) = nat (n + degree + 1)"
  using assms by (simp add: curve2D_generateKnotVector_def Let_def nat_add_distrib)


lemma deCasteljau_round_length [simp]:
  "length (deCasteljau_round t ps) = length ps - 1"
  by (induction t ps rule: deCasteljau_round.induct) simp_all

lemma deCasteljauSimple_round_length [simp]:
  "length (deCasteljauSimple_round t ps) = length ps - 1"
  by (induction t ps rule: deCasteljauSimple_round.induct) simp_all

section \<open>De Casteljau's scheme on coordinate sequences\<close>

lemma bez_cong: "(\<And>i. i \<le> n \<Longrightarrow> f i = g i) \<Longrightarrow> bez t n f = bez t n g"
proof (induction n arbitrary: f g)
  case 0
  then show ?case by simp
next
  case (Suc n)
  have "bez t n f = bez t n g"
    by (rule Suc.IH) (simp add: Suc.prems)
  moreover have "bez t n (\<lambda>i. f (Suc i)) = bez t n (\<lambda>i. g (Suc i))"
    by (rule Suc.IH) (simp add: Suc.prems)
  ultimately show ?case by simp
qed

lemma bez_linear:
  "bez t n (\<lambda>i. a * f i + b * g i) = a * bez t n f + b * bez t n g"
  by (induction n arbitrary: f g) (simp_all add: algebra_simps)


lemma bez_at_0: "bez 0 n f = f 0"
  by (induction n arbitrary: f) simp_all

lemma bez_at_1: "bez 1 n f = f n"
  by (induction n arbitrary: f) simp_all

lemma bez_round:
  "bez t (Suc n) f = bez t n (\<lambda>i. (1 - t) * f i + t * f (Suc i))"
proof (induction n arbitrary: f)
  case 0
  show ?case by simp
next
  case (Suc n)
  have "bez t (Suc (Suc n)) f
      = (1 - t) * bez t (Suc n) f + t * bez t (Suc n) (\<lambda>i. f (Suc i))"
    by simp
  also have "\<dots> = (1 - t) * bez t n (\<lambda>i. (1 - t) * f i + t * f (Suc i))
      + t * bez t n (\<lambda>i. (1 - t) * f (Suc i) + t * f (Suc (Suc i)))"
    by (simp only: Suc.IH)
  also have "\<dots> = bez t (Suc n) (\<lambda>i. (1 - t) * f i + t * f (Suc i))"
    by simp
  finally show ?case .
qed

lemma blend_split:
  fixes N :: real
  assumes "0 < N"
  shows "(i / (N + 1)) * u + (1 - i / (N + 1)) * v
       = (N / (N + 1)) * ((i / N) * u + (1 - i / N) * v) + (1 / (N + 1)) * v"
proof -
  have nz: "N \<noteq> 0" "N + 1 \<noteq> 0"
    using assms by auto
  have inner: "(i / N) * u + (1 - i / N) * v = (i * u + (N - i) * v) / N"
    using nz by (simp add: field_simps)
  have outer: "(N / (N + 1)) * (X / N) = X / (N + 1)" for X
    using nz by simp
  have "(N / (N + 1)) * ((i / N) * u + (1 - i / N) * v) + (1 / (N + 1)) * v
      = (i * u + (N - i) * v + v) / (N + 1)"
    by (simp only: inner outer) (simp add: add_divide_distrib)
  also have "i * u + (N - i) * v + v = i * u + (N + 1 - i) * v"
    by (simp add: algebra_simps)
  also have "(i * u + (N + 1 - i) * v) / (N + 1)
      = (i / (N + 1)) * u + ((N + 1 - i) / (N + 1)) * v"
    by (simp add: add_divide_distrib)
  also have "(N + 1 - i) / (N + 1) = 1 - i / (N + 1)"
    using nz by (simp add: diff_divide_distrib)
  finally show ?thesis by simp
qed

lemma blend_shift:
  fixes N :: real
  assumes "0 < N" and j: "j = i + 1"
  shows "(j / (N + 1)) * u + (1 - j / (N + 1)) * v
       = (N / (N + 1)) * ((i / N) * u + (1 - i / N) * v) + (1 / (N + 1)) * u"
proof -
  have nz: "N \<noteq> 0" "N + 1 \<noteq> 0"
    using assms by auto
  have inner: "(i / N) * u + (1 - i / N) * v = (i * u + (N - i) * v) / N"
    using nz by (simp add: field_simps)
  have outer: "(N / (N + 1)) * (X / N) = X / (N + 1)" for X
    using nz by simp
  have "(N / (N + 1)) * ((i / N) * u + (1 - i / N) * v) + (1 / (N + 1)) * u
      = (i * u + (N - i) * v + u) / (N + 1)"
    by (simp only: inner outer) (simp add: add_divide_distrib)
  also have "i * u + (N - i) * v + u = j * u + (N + 1 - j) * v"
    by (simp add: j algebra_simps)
  also have "(j * u + (N + 1 - j) * v) / (N + 1)
      = (j / (N + 1)) * u + ((N + 1 - j) / (N + 1)) * v"
    by (simp add: add_divide_distrib)
  also have "(N + 1 - j) / (N + 1) = 1 - j / (N + 1)"
    using nz by (simp add: diff_divide_distrib)
  finally show ?thesis by simp
qed

lemma elev_split:
  "elev (Suc n) f i
     = (real (n + 1) / real (n + 2)) * elev n f i + (1 / real (n + 2)) * f i"
proof -
  have "0 < real (n + 1)" by simp
  from blend_split [OF this, of "real i" "f (i - 1)" "f i"] show ?thesis
    by (simp add: elev_def add.commute)
qed

lemma elev_shift:
  "elev (Suc n) f (Suc i)
     = (real (n + 1) / real (n + 2)) * elev n (\<lambda>j. f (Suc j)) i + (1 / real (n + 2)) * f i"
proof -
  have pos: "0 < real (n + 1)" by simp
  show ?thesis
  proof (cases i)
    case 0
    from blend_shift [OF pos, of 1 0 "f 0" "f 1"] show ?thesis
      by (simp add: elev_def 0 add.commute)
  next
    case (Suc k)
    from blend_shift [OF pos, of "real (Suc i)" "real i" "f i" "f (Suc i)"] show ?thesis
      by (simp add: elev_def Suc add.commute)
  qed
qed

lemma bez_elev: "bez t (Suc n) (elev n f) = bez t n f"
proof (induction n arbitrary: f)
  case 0
  show ?case by (simp add: elev_def algebra_simps)
next
  case (Suc n)
  define a where "a = real (n + 1) / real (n + 2)"
  define b where "b = 1 / real (n + 2)"
  have ab: "a + b = 1"
    by (simp add: a_def b_def field_simps)
  have left: "bez t (Suc n) (elev (Suc n) f) = a * bez t n f + b * bez t (Suc n) f"
  proof -
    have "bez t (Suc n) (elev (Suc n) f)
        = bez t (Suc n) (\<lambda>i. a * elev n f i + b * f i)"
      unfolding a_def b_def by (rule bez_cong) (rule elev_split)
    also have "\<dots> = a * bez t (Suc n) (elev n f) + b * bez t (Suc n) f"
      by (rule bez_linear)
    finally show ?thesis by (simp only: Suc.IH)
  qed
  have right: "bez t (Suc n) (\<lambda>i. elev (Suc n) f (Suc i))
      = a * bez t n (\<lambda>j. f (Suc j)) + b * bez t (Suc n) f"
  proof -
    have "bez t (Suc n) (\<lambda>i. elev (Suc n) f (Suc i))
        = bez t (Suc n) (\<lambda>i. a * elev n (\<lambda>j. f (Suc j)) i + b * f i)"
      unfolding a_def b_def by (rule bez_cong) (rule elev_shift)
    also have "\<dots> = a * bez t (Suc n) (elev n (\<lambda>j. f (Suc j))) + b * bez t (Suc n) f"
      by (rule bez_linear)
    finally show ?thesis by (simp only: Suc.IH)
  qed
  have step: "bez t (Suc n) f = (1 - t) * bez t n f + t * bez t n (\<lambda>j. f (Suc j))"
    by simp
  have "bez t (Suc (Suc n)) (elev (Suc n) f)
      = (1 - t) * bez t (Suc n) (elev (Suc n) f)
        + t * bez t (Suc n) (\<lambda>i. elev (Suc n) f (Suc i))"
    by simp
  also have "\<dots> = (1 - t) * (a * bez t n f + b * bez t (Suc n) f)
        + t * (a * bez t n (\<lambda>j. f (Suc j)) + b * bez t (Suc n) f)"
    by (simp only: left right)
  also have "\<dots> = a * ((1 - t) * bez t n f + t * bez t n (\<lambda>j. f (Suc j)))
        + b * bez t (Suc n) f"
    by (simp only: algebra_simps)
  also have "\<dots> = (a + b) * bez t (Suc n) f"
    by (simp only: step [symmetric] distrib_right)
  finally show ?case
    by (simp only: ab mult_1)
qed

section \<open>The loops compute de Casteljau's scheme\<close>

lemma deCasteljauSimple_round_nth:
  "Suc i < length ps \<Longrightarrow>
   deCasteljauSimple_round t ps ! i
     = \<lparr>px = (1 - t) * px (ps ! i) + t * px (ps ! Suc i),
        py = (1 - t) * py (ps ! i) + t * py (ps ! Suc i)\<rparr>"
proof (induction t ps arbitrary: i rule: deCasteljauSimple_round.induct)
  case (1 t p0 p1 ps)
  then show ?case by (cases i) simp_all
qed simp_all


lemma deCasteljauSimple_loop_bez:
  "length ps = Suc n \<Longrightarrow>
   deCasteljauSimple_loop t ps
     = [\<lparr>px = bez t n (\<lambda>i. px (ps ! i)), py = bez t n (\<lambda>i. py (ps ! i))\<rparr>]"
proof (induction n arbitrary: ps)
  case 0
  then obtain p where "ps = [p]"
    by (cases ps) auto
  then show ?case
    by (simp add: deCasteljauSimple_loop.simps)
next
  case (Suc n)
  let ?qs = "deCasteljauSimple_round t ps"
  have len: "length ?qs = Suc n"
    using Suc.prems by simp
  have x: "bez t n (\<lambda>i. px (?qs ! i)) = bez t (Suc n) (\<lambda>i. px (ps ! i))"
    unfolding bez_round
    by (rule bez_cong) (simp add: deCasteljauSimple_round_nth Suc.prems)
  have y: "bez t n (\<lambda>i. py (?qs ! i)) = bez t (Suc n) (\<lambda>i. py (ps ! i))"
    unfolding bez_round
    by (rule bez_cong) (simp add: deCasteljauSimple_round_nth Suc.prems)
  have "deCasteljauSimple_loop t ps = deCasteljauSimple_loop t ?qs"
    using Suc.prems by (subst deCasteljauSimple_loop.simps) simp
  also have "\<dots> = [\<lparr>px = bez t n (\<lambda>i. px (?qs ! i)), py = bez t n (\<lambda>i. py (?qs ! i))\<rparr>]"
    by (rule Suc.IH [OF len])
  finally show ?case
    by (simp only: x y)
qed


text \<open>Closed forms of the two evaluators of bezier.js.\<close>

lemma deCasteljauSimple_bez:
  assumes "points \<noteq> []"
  shows "deCasteljauSimple points t
       = Some \<lparr>px = bez t (length points - 1) (\<lambda>i. px (points ! i)),
                py = bez t (length points - 1) (\<lambda>i. py (points ! i))\<rparr>"
proof (cases "length points = 1")
  case True
  then show ?thesis
    by (simp add: deCasteljauSimple_def)
next
  case False
  with assms obtain n where n: "length points = Suc (Suc n)"
    by (cases points; simp) (metis length_0_conv not0_implies_Suc)
  have len: "length (map xy points) = Suc (Suc n)"
    by (simp add: n)
  have x: "bez t (Suc n) (\<lambda>i. px (map xy points ! i)) = bez t (Suc n) (\<lambda>i. px (points ! i))"
    by (rule bez_cong) (simp add: n xy_def)
  have y: "bez t (Suc n) (\<lambda>i. py (map xy points ! i)) = bez t (Suc n) (\<lambda>i. py (points ! i))"
    by (rule bez_cong) (simp add: n xy_def)
  have "deCasteljauSimple points t
      = Some \<lparr>px = bez t (Suc n) (\<lambda>i. px (map xy points ! i)),
               py = bez t (Suc n) (\<lambda>i. py (map xy points ! i))\<rparr>"
    by (simp add: deCasteljauSimple_def n deCasteljauSimple_loop_bez [OF len] del: bez.simps)
  then show ?thesis
    by (simp add: x y n del: bez.simps)
qed


section \<open>Rounding to a double\<close>

lemma roundEven_of_int [simp]: "roundEven (of_int m) = m"
  by (simp add: roundEven_def)

lemma roundEven_lower:
  assumes "of_int lo \<le> y"
  shows "lo \<le> roundEven y"
proof -
  have "lo \<le> \<lfloor>y\<rfloor>"
    using assms by (simp add: le_floor_iff)
  moreover have "\<lfloor>y\<rfloor> \<le> roundEven y"
    by (simp add: roundEven_def Let_def)
  ultimately show ?thesis
    by linarith
qed

lemma roundEven_upper:
  assumes "y \<le> of_int hi"
  shows "roundEven y \<le> hi"
proof (cases "y = of_int \<lfloor>y\<rfloor>")
  case True
  then have "roundEven y = \<lfloor>y\<rfloor>"
    by (metis roundEven_of_int)
  with assms show ?thesis
    by (simp add: floor_le_iff)
next
  case False
  then have "of_int \<lfloor>y\<rfloor> \<noteq> y"
    by (rule not_sym)
  then have "of_int \<lfloor>y\<rfloor> < y"
    by (rule order.not_eq_order_implies_strict) (rule of_int_floor_le)
  with assms have "of_int \<lfloor>y\<rfloor> < (of_int hi :: real)"
    by linarith
  then have "\<lfloor>y\<rfloor> + 1 \<le> hi"
    by simp
  moreover have "roundEven y \<le> \<lfloor>y\<rfloor> + 1"
    by (simp add: roundEven_def Let_def)
  ultimately show ?thesis
    by linarith
qed

text \<open>\<open>exponent x\<close> is the exponent of the binade of \<open>x\<close>.\<close>

lemma exponent_bounds:
  assumes "x \<noteq> 0"
  shows "2 powi exponent x \<le> \<bar>x\<bar> \<and> \<bar>x\<bar> < 2 powi (exponent x + 1)"
proof (cases "1 \<le> \<bar>x\<bar>")
  case True
  define n where "n = \<lfloor>\<bar>x\<bar>\<rfloor>"
  have n: "0 < n"
    using True by (simp add: n_def)
  have e: "exponent x = bitlen n - 1"
    using True by (simp add: exponent_def n_def)
  have pos: "0 < bitlen n"
    using n bitlen_eq_zero_iff [of n] bitlen_nonneg [of n] by linarith
  from bitlen_bounds [OF n] have b: "2 ^ nat (bitlen n - 1) \<le> n" "n < 2 ^ nat (bitlen n)"
    by simp_all
  have lo: "(2::real) ^ nat (bitlen n - 1) \<le> of_int n"
    using b(1) by (metis of_int_le_iff of_int_numeral of_int_power)
  have hi: "of_int n + 1 \<le> (2::real) ^ nat (bitlen n)"
  proof -
    have "n + 1 \<le> 2 ^ nat (bitlen n)"
      using b(2) by simp
    then have "(of_int (n + 1) :: real) \<le> of_int (2 ^ nat (bitlen n))"
      by (simp only: of_int_le_iff)
    then show ?thesis
      by simp
  qed
  have fl: "of_int n \<le> \<bar>x\<bar>" "\<bar>x\<bar> < of_int n + 1"
    by (simp_all add: n_def)
  have p1: "(2::real) powi (bitlen n - 1) = 2 ^ nat (bitlen n - 1)"
    using pos by (simp add: power_int_def)
  have p2: "(2::real) powi (bitlen n - 1 + 1) = 2 ^ nat (bitlen n)"
    using pos by (simp add: power_int_def)
  show ?thesis
    using lo hi fl by (simp only: e p1 p2) linarith
next
  case False
  define a where "a = \<bar>x\<bar>"
  have a: "0 < a" "a < 1"
    using assms False by (simp_all add: a_def)
  define c where "c = \<lceil>1 / a\<rceil> - 1"
  have inv: "1 < 1 / a"
    using a by simp
  have c1: "of_int c < 1 / a" "1 / a \<le> of_int c + 1"
    by (simp_all add: c_def) linarith+
  have c: "0 < c"
  proof -
    have "1 < of_int c + (1::real)"
      using inv c1(2) by linarith
    then show ?thesis
      by simp
  qed
  have e: "exponent x = - bitlen c"
    using False by (simp add: exponent_def c_def a_def)
  have pos: "0 < bitlen c"
    using c bitlen_eq_zero_iff [of c] bitlen_nonneg [of c] by linarith
  from bitlen_bounds [OF c] have b: "2 ^ nat (bitlen c - 1) \<le> c" "c < 2 ^ nat (bitlen c)"
    by simp_all
  have lo: "(2::real) ^ nat (bitlen c - 1) \<le> of_int c"
    using b(1) by (metis of_int_le_iff of_int_numeral of_int_power)
  have hi: "of_int c + 1 \<le> (2::real) ^ nat (bitlen c)"
  proof -
    have "c + 1 \<le> 2 ^ nat (bitlen c)"
      using b(2) by simp
    then have "(of_int (c + 1) :: real) \<le> of_int (2 ^ nat (bitlen c))"
      by (simp only: of_int_le_iff)
    then show ?thesis
      by simp
  qed
  have p1: "(2::real) powi (- bitlen c) = 1 / 2 ^ nat (bitlen c)"
    using pos by (simp add: power_int_def field_simps)
  have p2: "(2::real) powi (- bitlen c + 1) = 1 / 2 ^ nat (bitlen c - 1)"
    using pos by (simp add: power_int_def field_simps nat_diff_distrib)
  have up: "1 / a \<le> 2 ^ nat (bitlen c)"
    using c1(2) hi by linarith
  have down: "2 ^ nat (bitlen c - 1) < 1 / a"
    using c1(1) lo by linarith
  have "1 / 2 ^ nat (bitlen c) \<le> a"
    using up a(1) by (simp add: field_simps)
  moreover have "a < 1 / 2 ^ nat (bitlen c - 1)"
    using down a(1) by (simp add: field_simps)
  ultimately show ?thesis
    by (simp only: e p1 p2 a_def [symmetric])
qed

lemma exponent_less:
  assumes "x \<noteq> 0" and "\<bar>x\<bar> < 2 powi k"
  shows "exponent x < k"
proof (rule ccontr)
  assume "\<not> exponent x < k"
  then have "k \<le> exponent x"
    by simp
  then have "(2::real) powi k \<le> 2 powi exponent x"
    by (intro power_int_increasing) simp_all
  with exponent_bounds [OF assms(1)] assms(2) show False
    by linarith
qed

lemma double_0 [simp]: "double 0 = 0"
  by (simp add: double_def)

text \<open>
  A number \<open>m * 2 ^ k\<close> with an integer \<open>m\<close> of at most 53 bits and \<open>k \<ge> -1074\<close> is a
  double, and rounding a second time changes nothing.
\<close>

lemma double_scaled:
  assumes m: "\<bar>m\<bar> < 2 ^ 53" and k: "- 1074 \<le> k"
  shows "double (of_int m * 2 powi k) = of_int m * 2 powi k"
proof (cases "m = 0")
  case True
  then show ?thesis
    by simp
next
  case False
  define x :: real where "x = of_int m * 2 powi k"
  have x0: "x \<noteq> 0"
    using False by (simp add: x_def)
  have absx: "\<bar>x\<bar> = of_int \<bar>m\<bar> * 2 powi k"
    by (simp add: x_def abs_mult)
  have "(of_int \<bar>m\<bar> :: real) < of_int (2 ^ 53)"
    using m by (simp only: of_int_less_iff)
  then have "(of_int \<bar>m\<bar> :: real) < 2 powi 53"
    by simp
  then have "of_int \<bar>m\<bar> * (2::real) powi k < 2 powi 53 * 2 powi k"
    by (intro mult_strict_right_mono) simp_all
  also have "(2::real) powi 53 * 2 powi k = 2 powi (53 + k)"
    by (simp add: power_int_add)
  finally have "\<bar>x\<bar> < 2 powi (53 + k)"
    by (simp only: absx)
  from exponent_less [OF x0 this] have e: "exponent x - 52 \<le> k"
    by simp
  define j where "j = max (exponent x) (- 1022) - 52"
  have j: "j \<le> k"
    using e k by (simp add: j_def)
  have quot: "x / 2 powi j = of_int (m * 2 ^ nat (k - j))"
  proof -
    have "x / 2 powi j = of_int m * (2 powi k / 2 powi j)"
      by (simp add: x_def)
    also have "(2::real) powi k / 2 powi j = 2 powi (k - j)"
      by (simp add: power_int_diff)
    also have "(2::real) powi (k - j) = 2 ^ nat (k - j)"
      using j by (simp add: power_int_def)
    finally show ?thesis
      by simp
  qed
  have "double x = of_int (roundEven (x / 2 powi j)) * 2 powi j"
    using x0 by (simp add: double_def j_def Let_def)
  also have "\<dots> = (x / 2 powi j) * 2 powi j"
    by (simp only: quot roundEven_of_int)
  also have "\<dots> = x"
    by simp
  finally show ?thesis
    by (simp only: x_def)
qed

lemma double_idem [simp]: "double (double x) = double x"
proof (cases "x = 0")
  case True
  then show ?thesis
    by simp
next
  case False
  define j where "j = max (exponent x) (- 1022) - 52"
  define m where "m = roundEven (x / 2 powi j)"
  have d: "double x = of_int m * 2 powi j"
    using False by (simp add: double_def j_def m_def Let_def)
  have j: "- 1074 \<le> j"
    by (simp add: j_def)
  have "\<bar>x\<bar> < 2 powi (exponent x + 1)"
    using exponent_bounds [OF False] by simp
  also have "(2::real) powi (exponent x + 1) \<le> 2 powi (j + 53)"
    by (intro power_int_increasing) (simp_all add: j_def)
  finally have "\<bar>x\<bar> < 2 powi j * 2 powi 53"
    by (simp add: power_int_add)
  then have "\<bar>x\<bar> / 2 powi j < 2 powi 53"
    by (simp add: field_simps)
  then have q: "\<bar>x / 2 powi j\<bar> < 2 ^ 53"
    by simp
  have "x / 2 powi j \<le> 2 ^ 53" "- (2 ^ 53) \<le> x / 2 powi j"
    using q by linarith+
  then have up: "x / 2 powi j \<le> of_int (2 ^ 53)"
    and low: "of_int (- (2 ^ 53)) \<le> x / 2 powi j"
    by simp_all
  have "m \<le> 2 ^ 53" "- (2 ^ 53) \<le> m"
    unfolding m_def by (rule roundEven_upper [OF up], rule roundEven_lower [OF low])
  then consider "\<bar>m\<bar> < 2 ^ 53" | "m = 2 ^ 53" | "m = - (2 ^ 53)"
    by linarith
  then show ?thesis
  proof cases
    case 1
    then show ?thesis
      by (simp only: d double_scaled [OF 1 j])
  next
    case 2
    have "of_int m * (2::real) powi j = of_int (2 ^ 52) * 2 powi (j + 1)"
      by (simp add: 2 power_int_add)
    moreover have "double (of_int (2 ^ 52) * 2 powi (j + 1)) = of_int (2 ^ 52) * 2 powi (j + 1)"
      by (rule double_scaled) (use j in simp_all)
    ultimately show ?thesis
      by (simp only: d)
  next
    case 3
    have "of_int m * (2::real) powi j = of_int (- (2 ^ 52)) * 2 powi (j + 1)"
      by (simp add: 3 power_int_add)
    moreover have "double (of_int (- (2 ^ 52)) * 2 powi (j + 1))
        = of_int (- (2 ^ 52)) * 2 powi (j + 1)"
      by (rule double_scaled) (use j in simp_all)
    ultimately show ?thesis
      by (simp only: d)
  qed
qed

lemma double_1 [simp]: "double 1 = 1"
  using double_scaled [of 1 0] by simp

lemma double_of_int: "\<bar>m\<bar> < 2 ^ 53 \<Longrightarrow> double (of_int m) = of_int m"
  using double_scaled [of m 0] by simp

lemma double_numeral: "numeral n < (2 ^ 53 :: int) \<Longrightarrow> double (numeral n) = numeral n"
  using double_of_int [of "numeral n"] by simp

lemma double_halves: "numeral n < (2 ^ 53 :: int) \<Longrightarrow> double (numeral n / 2) = numeral n / 2"
  using double_scaled [of "numeral n" "- 1"] by (simp add: power_int_minus field_simps)

lemma double_half: "double (1 / 2) = 1 / 2"
  using double_scaled [of 1 "- 1"] by (simp add: power_int_minus field_simps)



text \<open>\<open>in_range x\<close>: the rounded \<open>x\<close> is below \<open>2 ^ 1024\<close>.\<close>

lemma in_range_bound: "in_range x \<longleftrightarrow> \<bar>double x\<bar> < 2 powi 1024"
proof (cases "double x = 0")
  case True
  then show ?thesis
    by (simp add: in_range_def)
next
  case False
  have "exponent (double x) \<le> 1023 \<longleftrightarrow> \<bar>double x\<bar> < 2 powi 1024"
  proof
    assume "exponent (double x) \<le> 1023"
    then have "(2::real) powi (exponent (double x) + 1) \<le> 2 powi 1024"
      by (intro power_int_increasing) simp_all
    with exponent_bounds [OF False] show "\<bar>double x\<bar> < 2 powi 1024"
      by linarith
  next
    assume "\<bar>double x\<bar> < 2 powi 1024"
    from exponent_less [OF False this] show "exponent (double x) \<le> 1023"
      by simp
  qed
  with False show ?thesis
    by (simp add: in_range_def Let_def)
qed

lemma in_range_small:
  assumes "double x = x" and "\<bar>x\<bar> < 2 ^ 53"
  shows "in_range x"
proof -
  have "(2::real) ^ 53 = 2 powi 53"
    by simp
  also have "\<dots> \<le> 2 powi 1024"
    by (intro power_int_increasing) simp_all
  finally show ?thesis
    using assms by (simp only: in_range_bound)
qed

text \<open>The operators at \<open>t = 0\<close> and \<open>t = 1\<close>.\<close>

lemma fl_sub_1_0 [simp]: "fl_sub 1 0 = 1"
  by (simp add: fl_sub_def)

lemma fl_sub_1_1 [simp]: "fl_sub 1 1 = 0"
  by (simp add: fl_sub_def)

lemma fl_mul_0 [simp]: "fl_mul 0 b = 0"
  by (simp add: fl_mul_def)

lemma fl_mul_1 [simp]: "fl_mul 1 b = double b"
  by (simp add: fl_mul_def)

lemma fl_add_0_right [simp]: "fl_add a 0 = double a"
  by (simp add: fl_add_def)

lemma fl_add_0_left [simp]: "fl_add 0 b = double b"
  by (simp add: fl_add_def)

section \<open>Endpoint interpolation of the Bezier evaluators\<close>




















section \<open>Degree elevation\<close>

lemma elevateBezierDegree_length:
  "2 \<le> length points \<Longrightarrow> length (elevateBezierDegree points) = length points + 1"
  by (simp add: elevateBezierDegree_def Let_def del: upt_Suc)

lemma elevateBezierDegree_first:
  "2 \<le> length points \<Longrightarrow> elevateBezierDegree points ! 0 = points ! 0"
  by (simp add: elevateBezierDegree_def Let_def)

lemma elevateBezierDegree_mid:
  assumes "2 \<le> length points" and "0 < i" and "i < length points"
  shows "elevateBezierDegree points ! i
       = \<lparr>px = (real i / real (length points)) * px (points ! (i - 1))
                 + (1 - real i / real (length points)) * px (points ! i),
            py = (real i / real (length points)) * py (points ! (i - 1))
                 + (1 - real i / real (length points)) * py (points ! i),
            weight = weight (points ! i)\<rparr>"
proof -
  obtain j where j: "i = Suc j"
    using assms(2) by (cases i) auto
  have "j < length points - 1"
    using assms(3) j by simp
  then show ?thesis
    using assms(1) by (simp add: elevateBezierDegree_def Let_def j nth_append del: upt_Suc)
qed

lemma elevateBezierDegree_final:
  assumes "2 \<le> length points"
  shows "elevateBezierDegree points ! length points = points ! (length points - 1)"
proof -
  obtain n where n: "length points = Suc n"
    using assms by (cases points) auto
  show ?thesis
    using assms by (simp add: elevateBezierDegree_def Let_def n nth_append del: upt_Suc)
qed

lemma elevateBezierDegree_nth:
  assumes "2 \<le> length points" and "i \<le> length points"
  shows "px (elevateBezierDegree points ! i) = elev (length points - 1) (\<lambda>k. px (points ! k)) i
       \<and> py (elevateBezierDegree points ! i) = elev (length points - 1) (\<lambda>k. py (points ! k)) i"
proof -
  have pos: "real (length points) \<noteq> 0"
    using assms(1) by auto
  have suc: "real (length points - 1 + 1) = real (length points)"
    using assms(1) by simp
  consider "i = 0" | "0 < i" "i < length points" | "i = length points"
    using assms(2) by linarith
  then show ?thesis
  proof cases
    case 1
    then show ?thesis
      using assms(1) by (simp add: elevateBezierDegree_first elev_def)
  next
    case 2
    then show ?thesis
      by (simp only: elevateBezierDegree_mid [OF assms(1) 2] elev_def suc) simp
  next
    case 3
    then show ?thesis
      using pos by (simp only: elevateBezierDegree_final [OF assms(1)] elev_def suc) simp
  qed
qed

text \<open>
  On exact real numbers, and for the curve that \<open>deCasteljauSimple\<close> evaluates, the
  blend is degree elevation: \<open>elevateBezierDegree\<close> returns one control point more, keeps
  the first and the last, and the curve of the new control points is the curve of the given
  ones at every \<open>t\<close>.
\<close>

lemma elevateBezierDegree_preserves_curve:
  assumes "2 \<le> length points"
  shows "length (elevateBezierDegree points) = length points + 1
       \<and> hd (elevateBezierDegree points) = hd points
       \<and> last (elevateBezierDegree points) = last points
       \<and> (\<forall>t. deCasteljauSimple (elevateBezierDegree points) t = deCasteljauSimple points t)"
proof -
  obtain n where n: "length points = Suc (Suc n)"
    using assms by (metis Suc_le_D numeral_2_eq_2 Suc_le_mono)
  have len: "length (elevateBezierDegree points) = length points + 1"
    using assms by (rule elevateBezierDegree_length)
  have ne: "points \<noteq> []" "elevateBezierDegree points \<noteq> []"
    using n len by auto
  have first: "hd (elevateBezierDegree points) = hd points"
    using ne assms by (simp add: hd_conv_nth elevateBezierDegree_first)
  have final: "last (elevateBezierDegree points) = last points"
    using ne assms by (simp add: last_conv_nth len elevateBezierDegree_final)
  have same: "deCasteljauSimple (elevateBezierDegree points) t = deCasteljauSimple points t" for t
  proof -
    have x: "bez t (Suc (Suc n)) (\<lambda>i. px (elevateBezierDegree points ! i))
           = bez t (Suc (Suc n)) (elev (Suc n) (\<lambda>k. px (points ! k)))"
      by (rule bez_cong) (use assms n in \<open>simp add: elevateBezierDegree_nth\<close>)
    have y: "bez t (Suc (Suc n)) (\<lambda>i. py (elevateBezierDegree points ! i))
           = bez t (Suc (Suc n)) (elev (Suc n) (\<lambda>k. py (points ! k)))"
      by (rule bez_cong) (use assms n in \<open>simp add: elevateBezierDegree_nth\<close>)
    show ?thesis
      by (simp add: deCasteljauSimple_bez ne len n x y bez_elev del: bez.simps)
  qed
  from len first final same show ?thesis
    by simp
qed

text \<open>
  On doubles as well the result has one control point more, and the first and the last
  control point are copied.
\<close>

lemma elevateBezierDegree_double_ends:
  assumes "2 \<le> length points"
  shows "length (elevateBezierDegree_double points) = length points + 1
       \<and> hd (elevateBezierDegree_double points) = hd points
       \<and> last (elevateBezierDegree_double points) = last points"
proof -
  have ne: "points \<noteq> []"
    using assms by auto
  have len: "length (elevateBezierDegree_double points) = length points + 1"
    using assms by (simp add: elevateBezierDegree_double_def Let_def del: upt_Suc)
  have first: "hd (elevateBezierDegree_double points) = hd points"
    using assms ne by (simp add: elevateBezierDegree_double_def Let_def hd_conv_nth)
  have final: "last (elevateBezierDegree_double points) = last points"
    using assms ne by (simp add: elevateBezierDegree_double_def Let_def last_conv_nth del: upt_Suc)
  from len first final show ?thesis
    by simp
qed

text \<open>
  C4.  \<open>elevateBezierDegree\<close> blends \<open>x\<close> and \<open>y\<close> of neighbouring control points and
  copies the weight of the right neighbour, so the rational curve of weighted control
  points is not preserved.  The control points \<open>(0, 0)\<close> with weight 1 and \<open>(100, 40)\<close>
  with weight 3 have their curve at \<open>(75, 30)\<close> for \<open>t = 1 / 2\<close>; the elevated control
  points are \<open>(0, 0)\<close> with weight 1, \<open>(50, 20)\<close> with weight 3 and \<open>(100, 40)\<close> with
  weight 3, and their curve is at \<open>(60, 24)\<close>.  Every operation of the two evaluations is
  exact on doubles.
\<close>

theorem elevateBezierDegree_changes_rational_curve:
  "deCasteljau_double [\<lparr>px = 0, py = 0, weight = Some 1\<rparr>,
                       \<lparr>px = 100, py = 40, weight = Some 3\<rparr>] (1 / 2)
     = Some \<lparr>jx = Some 75, jy = Some 30\<rparr>
   \<and> elevateBezierDegree_double [\<lparr>px = 0, py = 0, weight = Some 1\<rparr>,
                                 \<lparr>px = 100, py = 40, weight = Some 3\<rparr>]
     = [\<lparr>px = 0, py = 0, weight = Some 1\<rparr>, \<lparr>px = 50, py = 20, weight = Some 3\<rparr>,
        \<lparr>px = 100, py = 40, weight = Some 3\<rparr>]
   \<and> deCasteljau_double (elevateBezierDegree_double [\<lparr>px = 0, py = 0, weight = Some 1\<rparr>,
                                 \<lparr>px = 100, py = 40, weight = Some 3\<rparr>]) (1 / 2)
     = Some \<lparr>jx = Some 60, jy = Some 24\<rparr>"
proof -
  have elevated: "elevateBezierDegree_double [\<lparr>px = 0, py = 0, weight = Some 1\<rparr>,
                                 \<lparr>px = 100, py = 40, weight = Some 3\<rparr>]
     = [\<lparr>px = 0, py = 0, weight = Some 1\<rparr>, \<lparr>px = 50, py = 20, weight = Some 3\<rparr>,
        \<lparr>px = 100, py = 40, weight = Some 3\<rparr>]"
    by (simp add: elevateBezierDegree_double_def Let_def fl_add_def fl_mul_def fl_sub_def
          double_half double_numeral upt_rec)
  have before: "deCasteljau_double [\<lparr>px = 0, py = 0, weight = Some 1\<rparr>,
                       \<lparr>px = 100, py = 40, weight = Some 3\<rparr>] (1 / 2)
     = Some \<lparr>jx = Some 75, jy = Some 30\<rparr>"
    by (simp add: deCasteljau_double_def homogeneous_double_def weightOrOne_def Let_def
          deCasteljau_loop_double.simps fl_add_def fl_mul_def fl_sub_def fl_div_def
          double_half double_halves double_numeral in_range_small)
  have after: "deCasteljau_double [\<lparr>px = 0, py = 0, weight = Some 1\<rparr>,
        \<lparr>px = 50, py = 20, weight = Some 3\<rparr>, \<lparr>px = 100, py = 40, weight = Some 3\<rparr>] (1 / 2)
     = Some \<lparr>jx = Some 60, jy = Some 24\<rparr>"
    by (simp add: deCasteljau_double_def homogeneous_double_def weightOrOne_def Let_def
          deCasteljau_loop_double.simps fl_add_def fl_mul_def fl_sub_def fl_div_def
          double_half double_halves double_numeral in_range_small)
  from before elevated after show ?thesis
    by (simp only: simp_thms)
qed

section \<open>Unit weights\<close>





section \<open>Sampling a Bezier curve\<close>

lemma deCasteljau_Some: "points \<noteq> [] \<Longrightarrow> \<exists>p. deCasteljau points t = Some p"
  by (simp add: deCasteljau_def Let_def)

lemma run_Some: "points \<noteq> [] \<Longrightarrow> \<exists>p. run alg points t = Some p"
  by (cases alg) (simp_all add: deCasteljau_Some deCasteljauSimple_bez)

lemma concat_singletons:
  "(\<And>i. i \<in> set xs \<Longrightarrow> f i \<noteq> None) \<Longrightarrow>
   concat (map (\<lambda>i. case f i of None \<Rightarrow> [] | Some p \<Rightarrow> [p]) xs) = map (\<lambda>i. the (f i)) xs"
proof (induction xs)
  case Nil
  show ?case by simp
next
  case (Cons a xs)
  from Cons.prems [of a] obtain p where "f a = Some p"
    by auto
  with Cons show ?case
    by simp
qed

text \<open>
  \<open>generateBezierCurve\<close> of bezier.js counts \<open>i\<close> from 0 to \<open>steps\<close> and evaluates the
  curve at \<open>i / steps\<close>: it returns \<open>steps + 1\<close> points, whatever the rounding.
\<close>

lemma generateBezierCurve_samples:
  assumes "2 \<le> length controlPoints" and "1 \<le> steps"
  shows "generateBezierCurve controlPoints steps useWeights
       = map (\<lambda>i. the (run (chooseAlgorithm controlPoints useWeights) controlPoints
                            (real i / real steps)))
             [0..<steps + 1]"
proof -
  have ne: "controlPoints \<noteq> []"
    using assms(1) by auto
  have some: "run (chooseAlgorithm controlPoints useWeights) controlPoints (real i / real steps)
      \<noteq> None" for i
    using run_Some [OF ne] by simp
  show ?thesis
    using assms
    by (simp add: generateBezierCurve_def Let_def concat_singletons [OF some] del: upt_Suc)
qed

text \<open>
  The loop of \<open>generateBezierCurve\<close> of curve2D.js returns when its parameters end
  within the fuel, and it evaluates the curve at each of them.
\<close>

lemma curve2D_deCasteljau_Some:
  "controlPoints \<noteq> [] \<Longrightarrow> \<exists>p. curve2D_deCasteljau controlPoints t = Some p"
  by (simp add: curve2D_deCasteljau_def Let_def)

lemma curve2D_sampleLoop_parameters:
  assumes "controlPoints \<noteq> []"
  shows "sampleParameters fuel step t = Some ts \<Longrightarrow>
         curve2D_sampleLoop controlPoints step t curvePoints
           = Some (curvePoints @ map (\<lambda>t. the (curve2D_deCasteljau controlPoints t)) ts)"
proof (induction fuel arbitrary: t ts curvePoints)
  case 0
  then have "\<not> t \<le> 1" and "ts = []"
    by (simp_all split: if_splits)
  then show ?case
    by (subst curve2D_sampleLoop.simps) simp
next
  case (Suc fuel)
  show ?case
  proof (cases "t \<le> 1")
    case True
    with Suc.prems obtain rest where rest: "sampleParameters fuel step (fl_add t step) = Some rest"
      and ts: "ts = t # rest"
      by auto
    obtain p where p: "curve2D_deCasteljau controlPoints t = Some p"
      using curve2D_deCasteljau_Some [OF assms] by blast
    have "curve2D_sampleLoop controlPoints step t curvePoints
        = curve2D_sampleLoop controlPoints step (fl_add t step) (curvePoints @ [p])"
      by (subst curve2D_sampleLoop.simps) (simp only: True p if_True option.case)
    also have "\<dots> = Some ((curvePoints @ [p])
        @ map (\<lambda>t. the (curve2D_deCasteljau controlPoints t)) rest)"
      by (rule Suc.IH [OF rest])
    finally show ?thesis
      by (simp add: ts p)
  next
    case False
    with Suc.prems have "ts = []"
      by simp
    with False show ?thesis
      by (subst curve2D_sampleLoop.simps) simp
  qed
qed

lemma curve2D_generateBezierCurve_parameters:
  assumes "2 \<le> length controlPoints" and "1 \<le> resolution"
    and "sampleParameters fuel (double (1 / real resolution)) 0 = Some ts"
  shows "curve2D_generateBezierCurve controlPoints resolution
       = Some (map (\<lambda>t. the (curve2D_deCasteljau controlPoints t)) (ts @ [1]))"
proof -
  have ne: "controlPoints \<noteq> []"
    using assms(1) by auto
  obtain p where p: "curve2D_deCasteljau controlPoints 1 = Some p"
    using curve2D_deCasteljau_Some [OF ne] by blast
  show ?thesis
    using assms(1,2)
    by (simp add: curve2D_generateBezierCurve_def
          curve2D_sampleLoop_parameters [OF ne assms(3)] p)
qed

lemma parameters_1: "sampleParameters 2 (double (1 / real 1)) 0 = Some [0, 1]"
  by code_simp

lemma parameters_9: "map_option length (sampleParameters 10 (double (1 / real 9)) 0) = Some 9"
  by code_simp

lemma parameters_10: "map_option length (sampleParameters 11 (double (1 / real 10)) 0) = Some 11"
  by code_simp

lemma curve2D_deCasteljau_example:
  "curve2D_deCasteljau [\<lparr>px = 0, py = 0\<rparr>, \<lparr>px = 1, py = 1\<rparr>] 0 = Some \<lparr>px = 0, py = 0\<rparr>"
  "curve2D_deCasteljau [\<lparr>px = 0, py = 0\<rparr>, \<lparr>px = 1, py = 1\<rparr>] 1 = Some \<lparr>px = 1, py = 1\<rparr>"
  by (simp_all add: curve2D_deCasteljau_def deCasteljauSimple_loop_double.simps)

text \<open>
  C8.  \<open>generateBezierCurve\<close> of curve2D.js does not return \<open>resolution + 1\<close> points
  sampled at \<open>i / resolution\<close>.  For every list of at least 2 control points:
  \<open>resolution = 1\<close> gives three points, the point at \<open>t = 1\<close> twice;
  \<open>resolution = 10\<close> gives 12 points; and with \<open>resolution = 9\<close> the sum of nine steps
  exceeds 1, so that the loop ends after 9 samples and 10 points are returned, the last
  of them by the statement after the loop.
\<close>

theorem curve2D_generateBezierCurve_point_counts:
  assumes "2 \<le> length controlPoints"
  shows "curve2D_generateBezierCurve controlPoints 1
           = Some [the (curve2D_deCasteljau controlPoints 0),
                   the (curve2D_deCasteljau controlPoints 1),
                   the (curve2D_deCasteljau controlPoints 1)]
       \<and> (\<exists>curve. curve2D_generateBezierCurve controlPoints 10 = Some curve \<and> length curve = 12)
       \<and> (\<exists>curve. curve2D_generateBezierCurve controlPoints 9 = Some curve \<and> length curve = 10)"
proof -
  have one: "curve2D_generateBezierCurve controlPoints 1
           = Some [the (curve2D_deCasteljau controlPoints 0),
                   the (curve2D_deCasteljau controlPoints 1),
                   the (curve2D_deCasteljau controlPoints 1)]"
    using curve2D_generateBezierCurve_parameters [OF assms _ parameters_1] by simp
  obtain ts where ts: "sampleParameters 11 (double (1 / real 10)) 0 = Some ts" "length ts = 11"
    using parameters_10 by auto
  have ten: "\<exists>curve. curve2D_generateBezierCurve controlPoints 10 = Some curve \<and> length curve = 12"
    using curve2D_generateBezierCurve_parameters [OF assms _ ts(1)] ts(2) by simp
  obtain us where us: "sampleParameters 10 (double (1 / real 9)) 0 = Some us" "length us = 9"
    using parameters_9 by auto
  have nine: "\<exists>curve. curve2D_generateBezierCurve controlPoints 9 = Some curve \<and> length curve = 10"
    using curve2D_generateBezierCurve_parameters [OF assms _ us(1)] us(2) by simp
  from one ten nine show ?thesis
    by (intro conjI)
qed

theorem curve2D_generateBezierCurve_point_counts_witness:
  "curve2D_generateBezierCurve [\<lparr>px = 0, py = 0\<rparr>, \<lparr>px = 1, py = 1\<rparr>] 1
     = Some [\<lparr>px = 0, py = 0\<rparr>, \<lparr>px = 1, py = 1\<rparr>, \<lparr>px = 1, py = 1\<rparr>]
   \<and> (\<exists>curve. curve2D_generateBezierCurve [\<lparr>px = 0, py = 0\<rparr>, \<lparr>px = 1, py = 1\<rparr>] 10 = Some curve
          \<and> length curve = 12)
   \<and> (\<exists>curve. curve2D_generateBezierCurve [\<lparr>px = 0, py = 0\<rparr>, \<lparr>px = 1, py = 1\<rparr>] 9 = Some curve
          \<and> length curve = 10)"
  using curve2D_generateBezierCurve_point_counts [of "[\<lparr>px = 0, py = 0\<rparr>, \<lparr>px = 1, py = 1\<rparr>]"]
  by (simp add: curve2D_deCasteljau_example)

section \<open>Picking a point\<close>

lemma near_squares:
  "0 \<le> threshold \<Longrightarrow> near p x y threshold = ((px p - x)\<^sup>2 + (py p - y)\<^sup>2 \<le> threshold\<^sup>2)"
  unfolding near_def by (metis abs_of_nonneg real_sqrt_abs real_sqrt_le_iff)

lemma findPointNear_loop_result:
  "(findPointNear_loop points x y threshold k = - 1
      \<and> (\<forall>i < k. \<not> near (points ! i) x y threshold))
   \<or> (\<exists>i < k. findPointNear_loop points x y threshold k = int i
        \<and> near (points ! i) x y threshold
        \<and> (\<forall>j. i < j \<and> j < k \<longrightarrow> \<not> near (points ! j) x y threshold))"
proof (induction k)
  case 0
  show ?case by simp
next
  case (Suc k)
  show ?case
  proof (cases "near (points ! k) x y threshold")
    case True
    then have "findPointNear_loop points x y threshold (Suc k) = int k"
      by (simp add: near_def power2_eq_square Let_def)
    with True show ?thesis
      by auto
  next
    case False
    then have eq: "findPointNear_loop points x y threshold (Suc k)
        = findPointNear_loop points x y threshold k"
      by (simp add: near_def power2_eq_square Let_def)
    from Suc show ?thesis
    proof
      assume "findPointNear_loop points x y threshold k = - 1
          \<and> (\<forall>i < k. \<not> near (points ! i) x y threshold)"
      with False eq show ?thesis
        by (auto simp add: less_Suc_eq)
    next
      assume "\<exists>i < k. findPointNear_loop points x y threshold k = int i
          \<and> near (points ! i) x y threshold
          \<and> (\<forall>j. i < j \<and> j < k \<longrightarrow> \<not> near (points ! j) x y threshold)"
      then obtain i where i: "i < k" "findPointNear_loop points x y threshold k = int i"
          "near (points ! i) x y threshold"
          "\<forall>j. i < j \<and> j < k \<longrightarrow> \<not> near (points ! j) x y threshold"
        by blast
      have "\<forall>j. i < j \<and> j < Suc k \<longrightarrow> \<not> near (points ! j) x y threshold"
        using i(4) False by (auto simp add: less_Suc_eq)
      with i eq show ?thesis
        by (intro disjI2 exI [of _ i]) simp
    qed
  qed
qed

lemma findPointAt_loop_result:
  "(findPointAt_loop ps x y threshold i0 = - 1
      \<and> (\<forall>i < length ps. \<not> near (ps ! i) x y threshold))
   \<or> (\<exists>i < length ps. findPointAt_loop ps x y threshold i0 = int (i0 + i)
        \<and> near (ps ! i) x y threshold
        \<and> (\<forall>j < i. \<not> near (ps ! j) x y threshold))"
proof (induction ps arbitrary: i0)
  case Nil
  show ?case by simp
next
  case (Cons p ps)
  show ?case
  proof (cases "near p x y threshold")
    case True
    then have "findPointAt_loop (p # ps) x y threshold i0 = int (i0 + 0)"
      by (simp add: near_def Let_def)
    with True show ?thesis
      by (intro disjI2 exI [of _ 0]) simp
  next
    case False
    then have eq: "findPointAt_loop (p # ps) x y threshold i0
        = findPointAt_loop ps x y threshold (Suc i0)"
      by (simp add: near_def Let_def)
    from Cons [of "Suc i0"] show ?thesis
    proof
      assume "findPointAt_loop ps x y threshold (Suc i0) = - 1
          \<and> (\<forall>i < length ps. \<not> near (ps ! i) x y threshold)"
      with False eq show ?thesis
        by (auto simp add: nth_Cons')
    next
      assume "\<exists>i < length ps. findPointAt_loop ps x y threshold (Suc i0) = int (Suc i0 + i)
          \<and> near (ps ! i) x y threshold
          \<and> (\<forall>j < i. \<not> near (ps ! j) x y threshold)"
      then obtain i where i: "i < length ps"
          "findPointAt_loop ps x y threshold (Suc i0) = int (Suc i0 + i)"
          "near (ps ! i) x y threshold" "\<forall>j < i. \<not> near (ps ! j) x y threshold"
        by blast
      have "\<forall>j < Suc i. \<not> near ((p # ps) ! j) x y threshold"
        using i(4) False by (auto simp add: nth_Cons')
      with i eq show ?thesis
        by (intro disjI2 exI [of _ "Suc i"]) simp
    qed
  qed
qed

text \<open>
  C9, as amended. For every point set and every query \<open>(x, y, threshold)\<close>,
  \<open>ControlPointsManager.findPointNear\<close> walks from the highest index down and returns
  the highest index whose point is within Euclidean distance \<open>threshold\<close> of \<open>(x, y)\<close>,
  so that the point added last wins where points overlap;
  \<open>ProfilePoints.findPointAt\<close> walks from index 0 up and returns the lowest such index.
  Both return \<open>-1\<close> when no point is within the threshold.
\<close>

theorem findPointNear_picks_highest_findPointAt_lowest:
  "((findPointNear points x y threshold = - 1
       \<and> (\<forall>i < length points. \<not> near (points ! i) x y threshold))
    \<or> (\<exists>i < length points. findPointNear points x y threshold = int i
         \<and> near (points ! i) x y threshold
         \<and> (\<forall>j. i < j \<and> j < length points \<longrightarrow> \<not> near (points ! j) x y threshold)))
   \<and> ((findPointAt profile x y threshold = - 1
         \<and> (\<forall>i < length profile. \<not> near (profile ! i) x y threshold))
      \<or> (\<exists>i < length profile. findPointAt profile x y threshold = int i
           \<and> near (profile ! i) x y threshold
           \<and> (\<forall>j < i. \<not> near (profile ! j) x y threshold)))"
  using findPointNear_loop_result [of points x y threshold "length points"]
    findPointAt_loop_result [of profile x y threshold 0]
  by (simp add: findPointNear_def findPointAt_def)

theorem findPointNear_picks_highest_findPointAt_lowest_witness:
  "findPointNear [\<lparr>px = 0, py = 0, weight = Some 1\<rparr>, \<lparr>px = 100, py = 100, weight = Some 1\<rparr>] 1 1 10 = 0
   \<and> findPointNear [\<lparr>px = 0, py = 0, weight = Some 1\<rparr>, \<lparr>px = 100, py = 100, weight = Some 1\<rparr>] 200 200 10 = - 1
   \<and> findPointAt [\<lparr>px = 0, py = 0\<rparr>, \<lparr>px = 100, py = 100\<rparr>] 1 1 10 = 0"
proof -
  let ?ps = "[\<lparr>px = 0, py = 0, weight = Some 1\<rparr>, \<lparr>px = 100, py = 100, weight = Some (1::real)\<rparr>]"
  let ?qs = "[\<lparr>px = 0, py = 0\<rparr>, \<lparr>px = 100, py = 100\<rparr>]"
  have first: "near (?ps ! 0) 1 1 10" "near (?qs ! 0) 1 1 10"
    by (simp_all add: near_squares)
  have only_first: "i = 0" if "i < length ?ps" "near (?ps ! i) 1 1 10" for i
    using that by (cases i) (simp_all add: near_squares)
  have only_first': "i = 0" if "i < length ?qs" "near (?qs ! i) 1 1 10" for i
    using that by (cases i) (simp_all add: near_squares)
  have none: "\<not> near (?ps ! i) 200 200 10" if "i < length ?ps" for i
    using that by (cases i) (simp_all add: near_squares)
  note close = findPointNear_picks_highest_findPointAt_lowest [of ?ps 1 1 10 ?qs]
  note far = findPointNear_picks_highest_findPointAt_lowest [of ?ps 200 200 10 ?qs]
  have a: "findPointNear ?ps 1 1 10 = 0"
    using close first(1) only_first by (metis length_greater_0_conv list.discI of_nat_0)
  have c: "findPointAt ?qs 1 1 10 = 0"
    using close first(2) only_first' by (metis length_greater_0_conv list.discI of_nat_0)
  have b: "findPointNear ?ps 200 200 10 = - 1"
    using far none by blast
  from a b c show ?thesis
    by simp
qed

text \<open>
  The claim as stated fails for \<open>ProfilePoints.findPointAt\<close>: with two points within the
  threshold it returns index 0, where \<open>findPointNear\<close> returns index 1.
\<close>

theorem findNear_order_counterexample:
  "findPointAt [\<lparr>px = 0, py = 0\<rparr>, \<lparr>px = 1, py = 0\<rparr>] 0 0 10 = 0
   \<and> findPointNear [\<lparr>px = 0, py = 0, weight = Some 1\<rparr>, \<lparr>px = 1, py = 0, weight = Some 1\<rparr>] 0 0 10 = 1"
  by (simp add: findPointAt_def findPointNear_def Let_def numeral_2_eq_2)

section \<open>The mesh of a revolution surface\<close>

lemma ringVertices_length:
  "length (ringVertices profilePoints axis angleStep subdivisions)
     = (subdivisions + 1) * length profilePoints"
  by (simp add: ringVertices_def length_concat comp_def sum_list_triv Let_def del: upt_Suc)

lemma ringFaces_length:
  "length (ringFaces pointsPerRing subdivisions) = 2 * subdivisions * (pointsPerRing - 1)"
  by (simp add: ringFaces_def length_concat comp_def sum_list_triv Let_def del: upt_Suc)

lemma ringFaces_in_range:
  assumes "(a, b, c) \<in> set (ringFaces pointsPerRing subdivisions)"
  shows "a < (subdivisions + 1) * pointsPerRing \<and> b < (subdivisions + 1) * pointsPerRing
       \<and> c < (subdivisions + 1) * pointsPerRing"
proof -
  from assms obtain i j where i: "i < subdivisions" and j: "j < pointsPerRing - 1"
    and f: "(a, b, c) = (i * pointsPerRing + j, i * pointsPerRing + j + pointsPerRing,
                         i * pointsPerRing + j + 1)
          \<or> (a, b, c) = (i * pointsPerRing + j + 1, i * pointsPerRing + j + pointsPerRing,
                           i * pointsPerRing + j + pointsPerRing + 1)"
    by (auto simp add: ringFaces_def Let_def)
  have "Suc (Suc i) * pointsPerRing \<le> (subdivisions + 1) * pointsPerRing"
    using i by (intro mult_le_mono1) simp
  then have bound: "i * pointsPerRing + pointsPerRing + pointsPerRing
      \<le> (subdivisions + 1) * pointsPerRing"
    by (simp add: algebra_simps)
  from f j bound show ?thesis
    by auto
qed

lemma addNormal_length [simp]: "length (addNormal normal ns idx) = length ns"
  by (simp add: addNormal_def)

lemma accumulateFaces_succeeds:
  assumes "\<forall>(a, b, c) \<in> set fs. a < length vs \<and> b < length vs \<and> c < length vs"
  shows "\<exists>acc. accumulateFaces vs fs ns = Inr acc \<and> length acc = length ns"
  using assms
proof (induction fs arbitrary: ns)
  case Nil
  show ?case by simp
next
  case (Cons f fs)
  obtain a b c where f: "f = (a, b, c)"
    by (cases f) auto
  from Cons.prems f have here: "a < length vs \<and> b < length vs \<and> c < length vs"
    and rest: "\<forall>(a, b, c) \<in> set fs. a < length vs \<and> b < length vs \<and> c < length vs"
    by auto
  let ?normal = "faceCross (vs ! a) (vs ! b) (vs ! c)"
  let ?ns = "addNormal ?normal (addNormal ?normal (addNormal ?normal ns a) b) c"
  from Cons.IH [OF rest, of ?ns] obtain acc
    where "accumulateFaces vs fs ?ns = Inr acc" "length acc = length ?ns"
    by blast
  with here show ?case
    by (simp add: f Let_def)
qed

lemma vecLength_zero_iff: "vecLength n = 0 \<longleftrightarrow> n = zeroVec"
proof -
  have "vx n * vx n + vy n * vy n + vz n * vz n = 0
      \<longleftrightarrow> vx n = 0 \<and> vy n = 0 \<and> vz n = 0"
    by (smt (verit) mult_eq_0_iff zero_le_square add_nonneg_eq_0_iff add_nonneg_nonneg)
  then show ?thesis
    by (cases n) (auto simp add: vecLength_def zeroVec_def)
qed

lemma vecLength_nonneg: "0 \<le> vecLength n"
  by (simp add: vecLength_def)

lemma normalizeVec_zero:
  assumes "vecLength n = 0"
  shows "normalizeVec n = zeroVec"
proof -
  have "normalizeVec n = n"
    using assms by (simp add: normalizeVec_def Let_def)
  with assms show ?thesis
    by (simp add: vecLength_zero_iff)
qed

lemma normalizeVec_unit:
  assumes "vecLength n \<noteq> 0"
  shows "vecLength (normalizeVec n) = 1"
proof -
  define l where "l = vecLength n"
  have pos: "0 < l"
    using assms vecLength_nonneg [of n] by (simp add: l_def)
  have sq: "l * l = vx n * vx n + vy n * vy n + vz n * vz n"
    unfolding l_def vecLength_def
    by simp
  have "normalizeVec n = \<lparr>vx = vx n / l, vy = vy n / l, vz = vz n / l\<rparr>"
    using pos by (simp add: normalizeVec_def Let_def l_def)
  then have "vecLength (normalizeVec n)
      = sqrt ((vx n / l) * (vx n / l) + (vy n / l) * (vy n / l) + (vz n / l) * (vz n / l))"
    by (simp add: vecLength_def)
  also have "(vx n / l) * (vx n / l) + (vy n / l) * (vy n / l) + (vz n / l) * (vz n / l)
      = (vx n * vx n + vy n * vy n + vz n * vz n) / (l * l)"
    by (simp add: add_divide_distrib)
  also have "\<dots> = 1"
    using pos by (simp add: sq [symmetric])
  finally show ?thesis
    by simp
qed

text \<open>The mesh \<open>generate\<close> builds, for any sweep angle.\<close>

lemma generate_mesh:
  assumes "2 \<le> length profilePoints" and "1 \<le> subdivisions"
  shows "\<exists>s'. generate s profilePoints axis angle subdivisions = Some (Inr ([], s'))
          \<and> length (vertices s') = (subdivisions + 1) * length profilePoints
          \<and> length (faces s') = 2 * subdivisions * (length profilePoints - 1)
          \<and> length (normals s') = length (vertices s')
          \<and> (\<forall>(a, b, c) \<in> set (faces s').
                a < length (vertices s') \<and> b < length (vertices s') \<and> c < length (vertices s'))
          \<and> (\<exists>acc. accumulatedNormals s' = Inr acc
                \<and> length acc = length (vertices s')
                \<and> (\<forall>i < length (vertices s').
                      (vecLength (acc ! i) = 0 \<longrightarrow> normals s' ! i = zeroVec)
                      \<and> (vecLength (acc ! i) \<noteq> 0 \<longrightarrow> vecLength (normals s' ! i) = 1)))"
proof -
  define angleStep where "angleStep = ((angle * pi) / 180) / real subdivisions"
  define vs where "vs = ringVertices profilePoints axis angleStep subdivisions"
  define fs where "fs = ringFaces (length profilePoints) subdivisions"
  define s3 where "s3 = (clear s)\<lparr>parameters :=
                   Some \<lparr>p_axis = axis, p_angle = angle, p_subdivisions = subdivisions,
                         p_profilePointsCount = length profilePoints\<rparr>,
                 vertices := vs, faces := fs\<rparr>"
  have vlen: "length vs = (subdivisions + 1) * length profilePoints"
    by (simp add: vs_def ringVertices_length)
  have flen: "length fs = 2 * subdivisions * (length profilePoints - 1)"
    by (simp add: fs_def ringFaces_length)
  have range: "\<forall>(a, b, c) \<in> set fs. a < length vs \<and> b < length vs \<and> c < length vs"
    unfolding vlen fs_def using ringFaces_in_range by blast
  obtain acc where acc: "accumulateFaces vs fs (map (\<lambda>v. zeroVec) vs) = Inr acc"
      and alen: "length acc = length vs"
    using accumulateFaces_succeeds [OF range, of "map (\<lambda>v. zeroVec) vs"] by auto
  define s4 where "s4 = s3\<lparr>normals := map normalizeVec acc\<rparr>"
  have acc3: "accumulatedNormals s3 = Inr acc"
    by (simp add: accumulatedNormals_def s3_def acc)
  have acc4: "accumulatedNormals s4 = Inr acc"
    by (simp add: accumulatedNormals_def s4_def s3_def acc)
  have long: "\<not> length profilePoints < 2" and some: "subdivisions \<noteq> 0"
    using assms by simp_all
  have "generate s profilePoints axis angle subdivisions
      = Some (case calculateNormals s3 of Inl e \<Rightarrow> Inl e | Inr s4 \<Rightarrow> Inr ([], s4))"
    unfolding generate_def Let_def s3_def vs_def fs_def angleStep_def
    by (simp only: if_not_P [OF long] if_not_P [OF some])
  also have "calculateNormals s3 = Inr s4"
    by (simp add: calculateNormals_def acc3 s4_def)
  finally have gen: "generate s profilePoints axis angle subdivisions = Some (Inr ([], s4))"
    by simp
  have v4: "vertices s4 = vs" and f4: "faces s4 = fs" and n4: "normals s4 = map normalizeVec acc"
    by (simp_all add: s4_def s3_def)
  have norms: "\<forall>i < length (vertices s4).
      (vecLength (acc ! i) = 0 \<longrightarrow> normals s4 ! i = zeroVec)
      \<and> (vecLength (acc ! i) \<noteq> 0 \<longrightarrow> vecLength (normals s4 ! i) = 1)"
    by (simp add: v4 n4 alen [symmetric] normalizeVec_zero normalizeVec_unit)
  show ?thesis
  proof (intro exI [of _ s4] conjI)
    show "generate s profilePoints axis angle subdivisions = Some (Inr ([], s4))"
      by (rule gen)
    show "length (vertices s4) = (subdivisions + 1) * length profilePoints"
      by (simp add: v4 vlen)
    show "length (faces s4) = 2 * subdivisions * (length profilePoints - 1)"
      by (simp add: f4 flen)
    show "length (normals s4) = length (vertices s4)"
      by (simp add: n4 v4 alen)
    show "\<forall>(a, b, c) \<in> set (faces s4).
        a < length (vertices s4) \<and> b < length (vertices s4) \<and> c < length (vertices s4)"
      using range by (simp add: v4 f4)
    show "\<exists>acc. accumulatedNormals s4 = Inr acc
        \<and> length acc = length (vertices s4)
        \<and> (\<forall>i < length (vertices s4).
              (vecLength (acc ! i) = 0 \<longrightarrow> normals s4 ! i = zeroVec)
              \<and> (vecLength (acc ! i) \<noteq> 0 \<longrightarrow> vecLength (normals s4 ! i) = 1))"
      using acc4 alen norms by (intro exI [of _ acc]) (simp add: v4)
  qed
qed

text \<open>
  C6. For every profile of at least 2 points and every \<open>subdivisions \<ge> 1\<close>, \<open>generate\<close>
  with a sweep of 360 degrees produces exactly \<open>(subdivisions + 1) * len(profile)\<close> vertices
  and \<open>2 * subdivisions * (len(profile) - 1)\<close> triangles; and after \<open>generate\<close> has built
  a mesh, whatever the sweep angle, there are as many normals as vertices, every index
  stored in a face is below the number of vertices, and every vertex normal has length 1
  unless its accumulated normal had length 0, in which case it is the zero vector.
\<close>

theorem generate_full_revolution_mesh:
  assumes "2 \<le> length profilePoints" and "1 \<le> subdivisions"
  shows "(\<exists>s'. generate s profilePoints axis 360 subdivisions = Some (Inr ([], s'))
            \<and> length (vertices s') = (subdivisions + 1) * length profilePoints
            \<and> length (faces s') = 2 * subdivisions * (length profilePoints - 1))
       \<and> (\<forall>angle. \<exists>s'. generate s profilePoints axis angle subdivisions = Some (Inr ([], s'))
            \<and> length (normals s') = length (vertices s')
            \<and> (\<forall>(a, b, c) \<in> set (faces s').
                  a < length (vertices s') \<and> b < length (vertices s') \<and> c < length (vertices s'))
            \<and> (\<exists>acc. accumulatedNormals s' = Inr acc
                  \<and> length acc = length (vertices s')
                  \<and> (\<forall>i < length (vertices s').
                        (vecLength (acc ! i) = 0 \<longrightarrow> normals s' ! i = zeroVec)
                        \<and> (vecLength (acc ! i) \<noteq> 0 \<longrightarrow> vecLength (normals s' ! i) = 1))))"
proof (intro conjI allI)
  from generate_mesh [OF assms, of s axis 360]
  show "\<exists>s'. generate s profilePoints axis 360 subdivisions = Some (Inr ([], s'))
            \<and> length (vertices s') = (subdivisions + 1) * length profilePoints
            \<and> length (faces s') = 2 * subdivisions * (length profilePoints - 1)"
    by (elim exE conjE) (intro exI conjI)
next
  fix angle
  from generate_mesh [OF assms, of s axis angle]
  show "\<exists>s'. generate s profilePoints axis angle subdivisions = Some (Inr ([], s'))
            \<and> length (normals s') = length (vertices s')
            \<and> (\<forall>(a, b, c) \<in> set (faces s').
                  a < length (vertices s') \<and> b < length (vertices s') \<and> c < length (vertices s'))
            \<and> (\<exists>acc. accumulatedNormals s' = Inr acc
                  \<and> length acc = length (vertices s')
                  \<and> (\<forall>i < length (vertices s').
                        (vecLength (acc ! i) = 0 \<longrightarrow> normals s' ! i = zeroVec)
                        \<and> (vecLength (acc ! i) \<noteq> 0 \<longrightarrow> vecLength (normals s' ! i) = 1)))"
    by (elim exE conjE) (intro exI conjI)
qed

theorem generate_full_revolution_mesh_witness:
  "\<exists>s'. generate emptySurface [\<lparr>px = 10, py = 0\<rparr>, \<lparr>px = 10, py = 5\<rparr>, \<lparr>px = 5, py = 10\<rparr>]
           ''y'' 360 4 = Some (Inr ([], s'))
        \<and> length (vertices s') = 15 \<and> length (faces s') = 16 \<and> length (normals s') = 15"
proof -
  let ?profile = "[\<lparr>px = 10, py = 0\<rparr>, \<lparr>px = 10, py = 5\<rparr>, \<lparr>px = 5, py = 10\<rparr>]"
  have long: "2 \<le> length ?profile" and some: "1 \<le> (4::nat)"
    by simp_all
  note mesh = generate_full_revolution_mesh [OF long some, of emptySurface "''y''"]
  from mesh [THEN conjunct1] obtain s'
    where a: "generate emptySurface ?profile ''y'' 360 4 = Some (Inr ([], s'))"
      "length (vertices s') = (4 + 1) * length ?profile"
      "length (faces s') = 2 * 4 * (length ?profile - 1)"
    by blast
  from mesh [THEN conjunct2, THEN spec, of 360] obtain s''
    where b: "generate emptySurface ?profile ''y'' 360 4 = Some (Inr ([], s''))"
      "length (normals s'') = length (vertices s'')"
    by blast
  from a b have "s'' = s'"
    by simp
  with a b show ?thesis
    by (intro exI [of _ s']) simp
qed

text \<open>
  C7, as amended. Called with a profile of fewer than 2 points, \<open>generate\<close> logs a warning,
  builds no mesh and leaves the surface as it was: a surface in the empty state (fresh from
  the constructor, or cleared) stays empty, with no vertices, no faces and no normals.
\<close>

theorem generate_short_profile_keeps_surface:
  assumes "length profilePoints < 2"
  shows "generate s profilePoints axis angle subdivisions
           = Some (Inr ([''Perfil precisa de pelo menos 2 pontos''], s))
       \<and> generate emptySurface profilePoints axis angle subdivisions
           = Some (Inr ([''Perfil precisa de pelo menos 2 pontos''], emptySurface))
       \<and> vertices emptySurface = [] \<and> faces emptySurface = [] \<and> normals emptySurface = []
       \<and> clear s = emptySurface"
  using assms by (simp add: generate_def emptySurface_def clear_def)

theorem generate_short_profile_keeps_surface_witness:
  "generate emptySurface [\<lparr>px = 10, py = 0\<rparr>] ''y'' 360 4
     = Some (Inr ([''Perfil precisa de pelo menos 2 pontos''], emptySurface))"
  using generate_short_profile_keeps_surface [of "[\<lparr>px = 10, py = 0\<rparr>]" emptySurface "''y''" 360 4]
  by simp

text \<open>
  The claim as stated fails for a surface that already holds a mesh: \<open>generate\<close> returns
  before it reaches its call of \<open>clear\<close>, and the four vertices of the earlier mesh are
  still there.
\<close>

theorem generate_short_profile_counterexample:
  "generate emptySurface [\<lparr>px = 1, py = 0\<rparr>, \<lparr>px = 1, py = 1\<rparr>] ''y'' 360 1
     = Some (Inr ([], \<lparr>vertices = [\<lparr>vx = 1, vy = 0, vz = 0\<rparr>, \<lparr>vx = 1, vy = 1, vz = 0\<rparr>,
                                   \<lparr>vx = 1, vy = 0, vz = 0\<rparr>, \<lparr>vx = 1, vy = 1, vz = 0\<rparr>],
                       faces = [(0, 2, 1), (1, 2, 3)],
                       normals = [\<lparr>vx = 0, vy = 0, vz = 0\<rparr>, \<lparr>vx = 0, vy = 0, vz = 0\<rparr>,
                                  \<lparr>vx = 0, vy = 0, vz = 0\<rparr>, \<lparr>vx = 0, vy = 0, vz = 0\<rparr>],
                       parameters = Some \<lparr>p_axis = ''y'', p_angle = 360, p_subdivisions = 1,
                                          p_profilePointsCount = 2\<rparr>\<rparr>))
   \<and> generate \<lparr>vertices = [\<lparr>vx = 1, vy = 0, vz = 0\<rparr>, \<lparr>vx = 1, vy = 1, vz = 0\<rparr>,
                            \<lparr>vx = 1, vy = 0, vz = 0\<rparr>, \<lparr>vx = 1, vy = 1, vz = 0\<rparr>],
                faces = [(0, 2, 1), (1, 2, 3)],
                normals = [\<lparr>vx = 0, vy = 0, vz = 0\<rparr>, \<lparr>vx = 0, vy = 0, vz = 0\<rparr>,
                           \<lparr>vx = 0, vy = 0, vz = 0\<rparr>, \<lparr>vx = 0, vy = 0, vz = 0\<rparr>],
                parameters = Some \<lparr>p_axis = ''y'', p_angle = 360, p_subdivisions = 1,
                                   p_profilePointsCount = 2\<rparr>\<rparr>
        [\<lparr>px = 1, py = 0\<rparr>] ''y'' 360 1
     = Some (Inr ([''Perfil precisa de pelo menos 2 pontos''],
           \<lparr>vertices = [\<lparr>vx = 1, vy = 0, vz = 0\<rparr>, \<lparr>vx = 1, vy = 1, vz = 0\<rparr>,
                        \<lparr>vx = 1, vy = 0, vz = 0\<rparr>, \<lparr>vx = 1, vy = 1, vz = 0\<rparr>],
            faces = [(0, 2, 1), (1, 2, 3)],
            normals = [\<lparr>vx = 0, vy = 0, vz = 0\<rparr>, \<lparr>vx = 0, vy = 0, vz = 0\<rparr>,
                       \<lparr>vx = 0, vy = 0, vz = 0\<rparr>, \<lparr>vx = 0, vy = 0, vz = 0\<rparr>],
            parameters = Some \<lparr>p_axis = ''y'', p_angle = 360, p_subdivisions = 1,
                               p_profilePointsCount = 2\<rparr>\<rparr>))"
  by (simp add: generate_def Let_def emptySurface_def clear_def ringVertices_def ringFaces_def
        rotatePoint_def toLowerCase_def calculateNormals_def accumulatedNormals_def
        faceCross_def addNormal_def normalizeVec_def vecLength_def zeroVec_def upt_rec)

section \<open>The basis functions at the last knot\<close>

text \<open>
  C1 says that on a clamped-uniform knot vector the basis functions of degree \<open>d\<close> sum
  to 1 at every \<open>t\<close> of \<open>[knots[d], knots[n]]\<close>.  At \<open>t = knots[n]\<close> the code returns 0
  for every one of them.  For two control points of degree 1 the knots are \<open>0, 0, 1, 1\<close>;
  at \<open>t = 1\<close> both basis functions are 0 and so is their sum, while just below 1 the sum
  is 1.  It is the same for seven control points of degree 3, and \<open>evaluateBSpline\<close> puts
  the end of the curve at the origin instead of the last control point.  The special case
  of degree 0 is tested with \<open>degree = 0\<close>, so it picks the span \<open>knots.length - 2\<close>, which
  is empty and whose value both guards of degree 1 drop.
\<close>

theorem bSplineBasis_sum_at_last_knot:
  "generateKnotVector 2 1 = [0, 0, 1, 1]
   \<and> bSplineBasis 0 1 (Some 1) [0, 0, 1, 1] = Some 0
   \<and> bSplineBasis 1 1 (Some 1) [0, 0, 1, 1] = Some 0
   \<and> basisSum 2 1 (Some 1) [0, 0, 1, 1] = Some 0
   \<and> basisSum 2 1 (Some (999 / 1000)) [0, 0, 1, 1] = Some 1
   \<and> generateKnotVector 7 3 = [0, 0, 0, 0, 1, 2, 3, 4, 4, 4, 4]
   \<and> basisSum 7 3 (Some 4) [0, 0, 0, 0, 1, 2, 3, 4, 4, 4, 4] = Some 0
   \<and> evaluateBSpline [\<lparr>jx = Some 3, jy = Some 4\<rparr>, \<lparr>jx = Some 5, jy = Some 6\<rparr>] 1 1 [0, 0, 1, 1]
       = Some \<lparr>jx = Some 0, jy = Some 0\<rparr>"
  by code_simp

section \<open>The basis functions on clamped-uniform knots\<close>

text \<open>
  As long as the last two knots are equal (they are, for degree \<open>\<ge> 1\<close>), the special case
  of \<open>bSplineBasis\<close> never reaches a basis function of degree \<open>\<ge> 1\<close> whose knots are all
  in the vector, and \<open>bSplineBasis\<close> computes the Cox-de Boor recursion.
\<close>

lemma bSplineBasis_degree_0:
  assumes "i + 2 < length knots"
  shows "bSplineBasis i 0 (Some t) knots = Some (coxDeBoor knots i 0 t)"
proof -
  have "int i \<noteq> int (length knots) - 0 - 2"
    using assms by linarith
  then show ?thesis
    using assms by (simp add: knot_at_def js_ge_def js_lt_def)
qed

lemma bSplineBasis_step:
  assumes range: "i + Suc j + 1 < length knots"
    and left: "knots ! (i + Suc j) - knots ! i \<noteq> 0 \<Longrightarrow>
        bSplineBasis i j (Some t) knots = Some (coxDeBoor knots i j t)"
    and right: "knots ! (i + Suc j + 1) - knots ! (i + 1) \<noteq> 0 \<Longrightarrow>
        bSplineBasis (i + 1) j (Some t) knots = Some (coxDeBoor knots (i + 1) j t)"
  shows "bSplineBasis i (Suc j) (Some t) knots = Some (coxDeBoor knots i (Suc j) t)"
proof -
  have k: "knot_at knots i = Some (knots ! i)"
    "knot_at knots (Suc (i + j)) = Some (knots ! Suc (i + j))"
    "knot_at knots (Suc i) = Some (knots ! Suc i)"
    "knot_at knots (Suc (Suc (i + j))) = Some (knots ! Suc (Suc (i + j)))"
    using range by (simp_all add: knot_at_def)
  from left have l: "knots ! Suc (i + j) \<noteq> knots ! i \<Longrightarrow>
      bSplineBasis i j (Some t) knots = Some (coxDeBoor knots i j t)"
    by simp
  from right have r: "knots ! Suc (Suc (i + j)) \<noteq> knots ! Suc i \<Longrightarrow>
      bSplineBasis (Suc i) j (Some t) knots = Some (coxDeBoor knots (Suc i) j t)"
    by simp
  show ?thesis
    by (simp add: k l r Let_def js_sub_def js_div_def js_mul_def js_add_def)
qed

lemma bSplineBasis_coxDeBoor:
  assumes last: "knots ! (length knots - 2) = knots ! (length knots - 1)"
    and "i + Suc j + 1 < length knots"
  shows "bSplineBasis i (Suc j) (Some t) knots = Some (coxDeBoor knots i (Suc j) t)"
  using assms(2)
proof (induction j arbitrary: i)
  case 0
  show ?case
  proof (rule bSplineBasis_step)
    show "i + Suc 0 + 1 < length knots"
      using 0 by simp
    show "bSplineBasis i 0 (Some t) knots = Some (coxDeBoor knots i 0 t)"
      using 0 by (intro bSplineBasis_degree_0) simp
    assume nz: "knots ! (i + Suc 0 + 1) - knots ! (i + 1) \<noteq> 0"
    have "i + 1 \<noteq> length knots - 2"
    proof
      assume e: "i + 1 = length knots - 2"
      then have "i + Suc 0 + 1 = length knots - 1"
        using 0 by simp
      with e nz last show False
        by simp
    qed
    with 0 have "i + 1 + 2 < length knots"
      by simp
    then show "bSplineBasis (i + 1) 0 (Some t) knots = Some (coxDeBoor knots (i + 1) 0 t)"
      by (rule bSplineBasis_degree_0)
  qed
next
  case (Suc j)
  show ?case
  proof (rule bSplineBasis_step)
    show "i + Suc (Suc j) + 1 < length knots"
      using Suc.prems by simp
    show "bSplineBasis i (Suc j) (Some t) knots = Some (coxDeBoor knots i (Suc j) t)"
      using Suc.prems by (intro Suc.IH) simp
    show "bSplineBasis (i + 1) (Suc j) (Some t) knots = Some (coxDeBoor knots (i + 1) (Suc j) t)"
      using Suc.prems by (intro Suc.IH) simp
  qed
qed

lemma fold_js_add:
  assumes "\<And>i. i < n \<Longrightarrow> f i = Some (g i)"
  shows "fold (\<lambda>i acc. js_add acc (f i)) [0..<n] (Some a) = Some (a + (\<Sum>i<n. g i))"
  using assms
proof (induction n)
  case 0
  show ?case by simp
next
  case (Suc n)
  then have "fold (\<lambda>i acc. js_add acc (f i)) [0..<n] (Some a) = Some (a + (\<Sum>i<n. g i))"
    by simp
  moreover have "f n = Some (g n)"
    using Suc.prems by simp
  ultimately show ?case
    by (simp add: js_add_def)
qed

lemma basisSum_coxDeBoor:
  assumes "knots ! (length knots - 2) = knots ! (length knots - 1)"
    and "1 \<le> degree" and "n + degree < length knots"
  shows "basisSum n degree (Some t) knots = Some (\<Sum>i<n. coxDeBoor knots i degree t)"
proof -
  obtain j where j: "degree = Suc j"
    using assms(2) by (cases degree) auto
  have "bSplineBasis i degree (Some t) knots = Some (coxDeBoor knots i degree t)" if "i < n" for i
    unfolding j using assms(1)
    by (rule bSplineBasis_coxDeBoor) (use that assms(3) j in simp)
  then show ?thesis
    unfolding basisSum_def by (simp add: fold_js_add)
qed

lemma generateKnotVector_nth:
  assumes "i < n + d + 1" and "d \<le> n"
  shows "generateKnotVector (int n) (int d) ! i
       = (if i \<le> d then 0 else if n \<le> i then real (n - d) else real (i - d))"
proof -
  have "[0..int n + int d + 1 - 1] ! i = int i"
    using assms by (simp add: nth_upto)
  moreover have "i < length [0..int n + int d + 1 - 1]"
    using assms by simp
  ultimately show ?thesis
    using assms(2) by (auto simp add: generateKnotVector_def Let_def of_nat_diff)
qed

lemma generateKnotVector_length_nat:
  "length (generateKnotVector (int n) (int d)) = n + d + 1"
  by (simp add: generateKnotVector_def Let_def)

lemma generateKnotVector_mono:
  assumes "i \<le> k" and "k < n + d + 1" and "d < n"
  shows "generateKnotVector (int n) (int d) ! i \<le> generateKnotVector (int n) (int d) ! k"
  using assms by (simp add: generateKnotVector_nth)

lemma generateKnotVector_last_two:
  assumes "1 \<le> d" and "d < n"
  shows "generateKnotVector (int n) (int d) ! (length (generateKnotVector (int n) (int d)) - 2)
       = generateKnotVector (int n) (int d) ! (length (generateKnotVector (int n) (int d)) - 1)"
  using assms by (simp add: generateKnotVector_length_nat generateKnotVector_nth)


lemma coxDeBoor_empty_support:
  assumes sorted: "\<And>i k. i \<le> k \<Longrightarrow> k < length knots \<Longrightarrow> knots ! i \<le> knots ! k"
    and range: "i + j + 1 < length knots"
    and empty: "knots ! i = knots ! (i + j + 1)"
  shows "coxDeBoor knots i j t = 0"
proof (cases j)
  case 0
  with empty show ?thesis
    by simp
next
  case (Suc j')
  have "knots ! i \<le> knots ! (i + j)" "knots ! (i + j) \<le> knots ! (i + j + 1)"
    "knots ! i \<le> knots ! (i + 1)" "knots ! (i + 1) \<le> knots ! (i + j + 1)"
    using range by (simp_all add: sorted)
  with empty have "knots ! (i + j) = knots ! i" "knots ! (i + j + 1) = knots ! (i + 1)"
    by simp_all
  then show ?thesis
    by (simp add: Suc)
qed

lemma coxDeBoor_telescope:
  assumes sorted: "\<And>i k. i \<le> k \<Longrightarrow> k < length knots \<Longrightarrow> knots ! i \<le> knots ! k"
    and range: "b + Suc j + 1 < length knots"
    and ab: "a \<le> b"
    and first: "coxDeBoor knots a j t = 0"
    and final: "coxDeBoor knots (Suc b) j t = 0"
  shows "(\<Sum>i = a..b. coxDeBoor knots i (Suc j) t) = (\<Sum>i = Suc a..b. coxDeBoor knots i j t)"
proof -
  define D where "D i = knots ! (i + Suc j) - knots ! i" for i
  define c where "c i = coxDeBoor knots i j t" for i
  define l where "l i = (if D i \<noteq> 0 then (t - knots ! i) / D i * c i else 0)" for i
  define r where "r i = (if D i \<noteq> 0 then (knots ! (i + Suc j) - t) / D i * c i else 0)" for i
  have split: "coxDeBoor knots i (Suc j) t = l i + r (Suc i)" for i
    by (simp add: l_def r_def D_def c_def)
  have join: "l i + r i = c i" if "i \<le> Suc b" for i
  proof (cases "D i = 0")
    case True
    then have "knots ! i = knots ! (i + j + 1)"
      by (simp add: D_def)
    moreover have "i + j + 1 < length knots"
      using that range by simp
    ultimately have "c i = 0"
      unfolding c_def using sorted by (intro coxDeBoor_empty_support) auto
    with True show ?thesis
      by (simp add: l_def r_def)
  next
    case False
    have "l i + r i = (t - knots ! i) / D i * c i + (knots ! (i + Suc j) - t) / D i * c i"
      using False by (simp add: l_def r_def)
    also have "\<dots> = ((t - knots ! i) / D i + (knots ! (i + Suc j) - t) / D i) * c i"
      by (simp only: distrib_right)
    also have "(t - knots ! i) / D i + (knots ! (i + Suc j) - t) / D i
        = ((t - knots ! i) + (knots ! (i + Suc j) - t)) / D i"
      by (simp only: add_divide_distrib)
    also have "(t - knots ! i) + (knots ! (i + Suc j) - t) = D i"
      by (simp add: D_def)
    also have "D i / D i = 1"
      using False by simp
    finally show ?thesis
      by simp
  qed
  have la: "l a = 0" and rb: "r (Suc b) = 0"
    using first final by (simp_all add: l_def r_def c_def)
  have "(\<Sum>i = a..b. coxDeBoor knots i (Suc j) t) = (\<Sum>i = a..b. l i) + (\<Sum>i = a..b. r (Suc i))"
    by (simp only: split sum.distrib)
  also have "(\<Sum>i = a..b. l i) = (\<Sum>i = Suc a..b. l i)"
    using ab la by (simp add: sum.atLeast_Suc_atMost)
  also have "(\<Sum>i = a..b. r (Suc i)) = (\<Sum>i = Suc a..Suc b. r i)"
    by (simp only: sum.shift_bounds_cl_Suc_ivl)
  also have "\<dots> = (\<Sum>i = Suc a..b. r i)"
    using ab rb by simp
  also have "(\<Sum>i = Suc a..b. l i) + (\<Sum>i = Suc a..b. r i) = (\<Sum>i = Suc a..b. l i + r i)"
    by (simp add: sum.distrib)
  also have "\<dots> = (\<Sum>i = Suc a..b. c i)"
    by (rule sum.cong) (simp_all add: join)
  finally show ?thesis
    by (simp add: c_def)
qed

lemma clamped_sorted:
  assumes "d < n" and "i \<le> k" and "k < length (generateKnotVector (int n) (int d))"
  shows "generateKnotVector (int n) (int d) ! i \<le> generateKnotVector (int n) (int d) ! k"
  using assms by (simp add: generateKnotVector_length_nat generateKnotVector_nth)

lemma coxDeBoor_spans:
  assumes "d < n" and "0 \<le> t" and "t < real (n - d)"
  shows "(\<Sum>i = d..n - 1. coxDeBoor (generateKnotVector (int n) (int d)) i 0 t) = 1"
proof -
  let ?U = "generateKnotVector (int n) (int d)"
  define k where "k = d + nat \<lfloor>t\<rfloor>"
  have fl: "real (nat \<lfloor>t\<rfloor>) \<le> t" "t < real (nat \<lfloor>t\<rfloor>) + 1"
    using assms(2) by (simp_all add: of_nat_nat)
  have "real (nat \<lfloor>t\<rfloor>) < real (n - d)"
    using fl(1) assms(3) by linarith
  then have kn: "k \<in> {d..n - 1}"
    using assms(1) by (simp add: k_def)
  have each: "coxDeBoor ?U i 0 t = (if i = k then 1 else 0)" if "i \<in> {d..n - 1}" for i
  proof -
    from that assms(1) have i: "d \<le> i" "i < n"
      by auto
    have lo: "?U ! i = real (i - d)"
      using i assms(1) by (simp add: generateKnotVector_nth)
    have hi: "?U ! Suc i = real (i - d) + 1"
      using i assms(1) by (simp add: generateKnotVector_nth of_nat_diff)
    show ?thesis
    proof (cases "i = k")
      case True
      then have "i - d = nat \<lfloor>t\<rfloor>"
        by (simp add: k_def)
      with fl have "coxDeBoor ?U i 0 t = 1"
        by (simp add: lo hi)
      with True show ?thesis
        by simp
    next
      case False
      then have ne: "i - d \<noteq> nat \<lfloor>t\<rfloor>"
        using i by (auto simp add: k_def)
      have "\<not> (real (i - d) \<le> t \<and> t < real (i - d) + 1)"
      proof
        assume "real (i - d) \<le> t \<and> t < real (i - d) + 1"
        then have "\<lfloor>t\<rfloor> = int (i - d)"
          by (intro floor_unique) simp_all
        with ne show False
          by simp
      qed
      with False show ?thesis
        by (simp add: lo hi)
    qed
  qed
  have "(\<Sum>i = d..n - 1. coxDeBoor ?U i 0 t) = (\<Sum>i = d..n - 1. if i = k then 1 else 0)"
  proof (rule sum.cong)
    show "{d..n - 1} = {d..n - 1}"
      by (rule refl)
  next
    fix i assume "i \<in> {d..n - 1}"
    then show "coxDeBoor ?U i 0 t = (if i = k then 1 else 0)"
      by (rule each)
  qed
  also have "\<dots> = 1"
    using kn by (simp add: sum.delta)
  finally show ?thesis .
qed

lemma coxDeBoor_level_sum:
  assumes "d < n" and "0 \<le> t" and "t < real (n - d)" and "j \<le> d"
  shows "(\<Sum>i = d - j..n - 1. coxDeBoor (generateKnotVector (int n) (int d)) i j t) = 1"
  using assms(4)
proof (induction j)
  case 0
  show ?case
    unfolding diff_zero by (rule coxDeBoor_spans [OF assms(1-3)])
next
  case (Suc j)
  let ?U = "generateKnotVector (int n) (int d)"
  have j: "j < d"
    using Suc.prems by simp
  have sorted: "\<And>i k. i \<le> k \<Longrightarrow> k < length ?U \<Longrightarrow> ?U ! i \<le> ?U ! k"
    using assms(1) by (rule clamped_sorted)
  have first: "coxDeBoor ?U (d - Suc j) j t = 0"
  proof (rule coxDeBoor_empty_support [OF sorted])
    show "d - Suc j + j + 1 < length ?U"
      using j by (simp add: generateKnotVector_length_nat)
    show "?U ! (d - Suc j) = ?U ! (d - Suc j + j + 1)"
      using j assms(1) by (simp add: generateKnotVector_nth)
  qed simp_all
  have final: "coxDeBoor ?U (Suc (n - 1)) j t = 0"
  proof (rule coxDeBoor_empty_support [OF sorted])
    show "Suc (n - 1) + j + 1 < length ?U"
      using j assms(1) by (simp add: generateKnotVector_length_nat)
    show "?U ! Suc (n - 1) = ?U ! (Suc (n - 1) + j + 1)"
      using j assms(1) by (simp add: generateKnotVector_nth)
  qed simp_all
  have range: "n - 1 + Suc j + 1 < length ?U"
    using j assms(1) by (simp add: generateKnotVector_length_nat)
  have ab: "d - Suc j \<le> n - 1"
    using assms(1) by simp
  have "(\<Sum>i = d - Suc j..n - 1. coxDeBoor ?U i (Suc j) t)
      = (\<Sum>i = Suc (d - Suc j)..n - 1. coxDeBoor ?U i j t)"
    by (rule coxDeBoor_telescope [OF sorted range ab first final])
  also have "Suc (d - Suc j) = d - j"
    using j by simp
  finally show ?case
    using Suc.IH j by simp
qed

lemma coxDeBoor_zero_at_last_knot:
  assumes "d < n" and "i + j + 1 < n + d + 1"
  shows "coxDeBoor (generateKnotVector (int n) (int d)) i j (real (n - d)) = 0"
  using assms(2)
proof (induction j arbitrary: i)
  case 0
  then have "generateKnotVector (int n) (int d) ! (i + 1) \<le> real (n - d)"
    using assms(1) by (simp add: generateKnotVector_nth)
  then show ?case
    by simp
next
  case (Suc j)
  have "coxDeBoor (generateKnotVector (int n) (int d)) i j (real (n - d)) = 0"
    "coxDeBoor (generateKnotVector (int n) (int d)) (i + 1) j (real (n - d)) = 0"
    using Suc.prems by (simp_all add: Suc.IH)
  then show ?case
    by simp
qed

text \<open>
  For every degree \<open>d \<ge> 1\<close> and every \<open>n \<ge> d + 1\<close>, on the clamped-uniform knot vector
  the basis functions \<open>0 .. n - 1\<close> of degree \<open>d\<close> sum to 1 at every \<open>t\<close> with
  \<open>knots[d] \<le> t < knots[n]\<close>.
\<close>

theorem basis_partition_of_unity_below_last_knot:
  assumes "1 \<le> d" and "d + 1 \<le> n"
    and "knots = generateKnotVector (int n) (int d)"
    and "knots ! d \<le> t" and "t < knots ! n"
  shows "basisSum n d (Some t) knots = Some 1"
proof -
  have dn: "d < n"
    using assms(2) by simp
  have t: "0 \<le> t" "t < real (n - d)"
    using assms(3-5) dn by (simp_all add: generateKnotVector_nth)
  have "basisSum n d (Some t) knots = Some (\<Sum>i<n. coxDeBoor knots i d t)"
    unfolding assms(3) using assms(1) dn
    by (intro basisSum_coxDeBoor generateKnotVector_last_two)
      (simp_all add: generateKnotVector_length_nat)
  also have "{..<n} = {d - d..n - 1}"
    using dn by auto
  also have "(\<Sum>i = d - d..n - 1. coxDeBoor knots i d t) = 1"
    unfolding assms(3) using dn t by (intro coxDeBoor_level_sum) simp_all
  finally show ?thesis .
qed

theorem basis_partition_of_unity_below_last_knot_witness:
  "basisSum 4 3 (Some (1 / 2)) (generateKnotVector 4 3) = Some 1"
  using basis_partition_of_unity_below_last_knot [of 3 4 "generateKnotVector 4 3" "1 / 2"]
  by (simp add: generateKnotVector_nth [of _ 4 3, simplified])

text \<open>
  For every degree \<open>d \<ge> 1\<close> and every \<open>n \<ge> d + 1\<close>, at the last knot \<open>t = knots[n]\<close> of
  the domain, which is \<open>n - d\<close>, the basis functions \<open>0 .. n - 1\<close> of degree \<open>d\<close> sum to 0.
\<close>

theorem basis_sum_zero_at_last_knot:
  assumes "1 \<le> d" and "d + 1 \<le> n"
    and "knots = generateKnotVector (int n) (int d)"
  shows "knot_at knots n = Some (real (n - d)) \<and> basisSum n d (knot_at knots n) knots = Some 0"
proof -
  have dn: "d < n"
    using assms(2) by simp
  have at_n: "knot_at knots n = Some (real (n - d))"
    using dn by (simp add: assms(3) knot_at_def generateKnotVector_length_nat generateKnotVector_nth)
  have "basisSum n d (Some (real (n - d))) knots
      = Some (\<Sum>i<n. coxDeBoor knots i d (real (n - d)))"
    unfolding assms(3) using assms(1) dn
    by (intro basisSum_coxDeBoor generateKnotVector_last_two)
      (simp_all add: generateKnotVector_length_nat)
  also have "(\<Sum>i<n. coxDeBoor knots i d (real (n - d))) = 0"
    unfolding assms(3) using dn by (intro sum.neutral ballI coxDeBoor_zero_at_last_knot) simp_all
  finally show ?thesis
    using at_n by simp
qed

theorem basis_sum_zero_at_last_knot_witness:
  "basisSum 7 3 (Some 4) (generateKnotVector 7 3) = Some 0"
  using basis_sum_zero_at_last_knot [of 3 7 "generateKnotVector 7 3"]
  by auto

section \<open>Knot insertion\<close>

text \<open>
  Whenever \<open>insertKnot\<close> returns, it returns as many control points as it was given and
  one knot more: a knot vector one entry too long for them.
\<close>

lemma collect_length: "collect rs = Inr vs \<Longrightarrow> length vs = length rs"
proof (induction rs arbitrary: vs rule: collect.induct)
  case 1
  then show ?case by simp
next
  case (2 e rs)
  then show ?case by simp
next
  case (3 v rs)
  then show ?case
    by (cases "collect rs") auto
qed

lemma insertKnot_lengths:
  assumes "insertKnot controlPoints knots degree newKnot = Inr (newControlPoints, newKnots)"
  shows "length newControlPoints = length controlPoints \<and> length newKnots = length knots + 1"
proof -
  let ?k = "findSpan knots newKnot degree"
  let ?rs = "map (insertKnot_point controlPoints knots degree newKnot ?k) [0..<length controlPoints]"
  from assms obtain vs where vs: "collect ?rs = Inr vs"
    and out: "newControlPoints = vs" "newKnots = take ?k knots @ [newKnot] @ drop ?k knots"
    by (auto simp add: insertKnot_def Let_def split: sum.splits)
  from collect_length [OF vs] out show ?thesis
    by simp
qed

text \<open>
  C3 says that \<open>insertKnot\<close> keeps the curve.  For the polyline (degree 1) through
  \<open>(0,0)\<close>, \<open>(2,0)\<close>, \<open>(2,2)\<close> on the knots \<open>0, 0, 1, 2, 2\<close> and the new knot \<open>1/2\<close> it
  returns three control points, not four: \<open>(2,0)\<close> is replaced by the blend \<open>(1,0)\<close> and
  the points after the blend are not shifted by one.  At \<open>t = 3/4\<close> the given curve is at
  \<open>(3/2, 0)\<close> and the returned one at \<open>(3/2, 1)\<close>.
\<close>

theorem insertKnot_changes_curve:
  "insertKnot [\<lparr>jx = Some 0, jy = Some 0\<rparr>, \<lparr>jx = Some 2, jy = Some 0\<rparr>, \<lparr>jx = Some 2, jy = Some 2\<rparr>]
       [0, 0, 1, 2, 2] 1 (1 / 2)
     = Inr ([\<lparr>jx = Some 0, jy = Some 0\<rparr>, \<lparr>jx = Some 1, jy = Some 0\<rparr>, \<lparr>jx = Some 2, jy = Some 2\<rparr>],
            [0, 0, 1 / 2, 1, 2, 2])
   \<and> evaluateBSpline [\<lparr>jx = Some 0, jy = Some 0\<rparr>, \<lparr>jx = Some 2, jy = Some 0\<rparr>, \<lparr>jx = Some 2, jy = Some 2\<rparr>]
       (3 / 4) 1 [0, 0, 1, 2, 2]
     = Some \<lparr>jx = Some (3 / 2), jy = Some 0\<rparr>
   \<and> evaluateBSpline [\<lparr>jx = Some 0, jy = Some 0\<rparr>, \<lparr>jx = Some 1, jy = Some 0\<rparr>, \<lparr>jx = Some 2, jy = Some 2\<rparr>]
       (3 / 4) 1 [0, 0, 1 / 2, 1, 2, 2]
     = Some \<lparr>jx = Some (3 / 2), jy = Some 1\<rparr>"
  by code_simp

section \<open>The two knot-vector constructors agree\<close>

text \<open>
  C10. For every degree \<open>\<ge> 1\<close> and every number of control points \<open>n \<ge> degree + 1\<close>, the
  knot-vector constructor of Questao 01 (spline.js) and the one of Questao 02 (curve2D.js)
  return the same knot vector, and its length is \<open>n + degree + 1\<close>.
\<close>

theorem generateKnotVector_duplicates_agree:
  assumes "1 \<le> degree" "degree + 1 \<le> n"
  shows "curve2D_generateKnotVector n degree = generateKnotVector n degree
         \<and> int (length (generateKnotVector n degree)) = n + degree + 1"
proof
  show "curve2D_generateKnotVector n degree = generateKnotVector n degree"
  proof (rule nth_equalityI)
    show "length (curve2D_generateKnotVector n degree) = length (generateKnotVector n degree)"
      using assms by (simp add: curve2D_generateKnotVector_length generateKnotVector_length)
  next
    fix k assume "k < length (curve2D_generateKnotVector n degree)"
    then have k: "k < nat (n + degree + 1)"
      using assms by (simp add: curve2D_generateKnotVector_length)
    show "curve2D_generateKnotVector n degree ! k = generateKnotVector n degree ! k"
      using assms k
      by (auto simp add: curve2D_generateKnotVector_def generateKnotVector_def Let_def
            nth_append nth_upto)
  qed
next
  show "int (length (generateKnotVector n degree)) = n + degree + 1"
    using assms by (simp add: generateKnotVector_length)
qed

theorem generateKnotVector_duplicates_agree_witness:
  "curve2D_generateKnotVector 5 2 = [0, 0, 0, 1, 2, 3, 3, 3]
   \<and> generateKnotVector 5 2 = [0, 0, 0, 1, 2, 3, 3, 3]
   \<and> length (generateKnotVector 5 2) = 8"
proof -
  have e: "generateKnotVector 5 2 = [0, 0, 0, 1, 2, 3, 3, 3]"
    by code_simp
  from generateKnotVector_duplicates_agree [of 2 5] e show ?thesis
    by simp
qed

end
